theory Spec2Isabelle
  imports Complex_Main
begin

section \<open>JavaScript numbers\<close>

text \<open>
  The program computes with JavaScript numbers. They are modelled as exact reals
  extended with the three non-finite values of IEEE 754, so that a division by zero or a
  comparison with \<open>NaN\<close> is a branch of the model and not a HOL convention
  (\<open>x / 0 = 0\<close>). Binary rounding of finite results and the sign of zero are not modelled:
  \<open>Fin 0\<close> stands for both zeros, which \<open>===\<close> and \<open><\<close> do not tell apart either.
\<close>

datatype jsnum = Fin real | PosInf | NegInf | NaN

fun js_eq :: "jsnum \<Rightarrow> jsnum \<Rightarrow> bool" where
  "js_eq (Fin x) (Fin y) = (x = y)"
| "js_eq PosInf PosInf = True"
| "js_eq NegInf NegInf = True"
| "js_eq _ _ = False"

fun js_lt :: "jsnum \<Rightarrow> jsnum \<Rightarrow> bool" where
  "js_lt (Fin x) (Fin y) = (x < y)"
| "js_lt (Fin x) PosInf = True"
| "js_lt NegInf (Fin y) = True"
| "js_lt NegInf PosInf = True"
| "js_lt _ _ = False"

fun js_neg :: "jsnum \<Rightarrow> jsnum" where
  "js_neg (Fin x) = Fin (- x)"
| "js_neg PosInf = NegInf"
| "js_neg NegInf = PosInf"
| "js_neg NaN = NaN"

fun js_add :: "jsnum \<Rightarrow> jsnum \<Rightarrow> jsnum" where
  "js_add (Fin x) (Fin y) = Fin (x + y)"
| "js_add NaN _ = NaN"
| "js_add _ NaN = NaN"
| "js_add PosInf NegInf = NaN"
| "js_add NegInf PosInf = NaN"
| "js_add PosInf _ = PosInf"
| "js_add NegInf _ = NegInf"
| "js_add _ PosInf = PosInf"
| "js_add _ NegInf = NegInf"

definition js_sub :: "jsnum \<Rightarrow> jsnum \<Rightarrow> jsnum" where
  "js_sub a b = js_add a (js_neg b)"

text \<open>The infinity with the sign of a real; zero counts as positive.\<close>

definition signed_inf :: "real \<Rightarrow> jsnum" where
  "signed_inf x = (if x < 0 then NegInf else PosInf)"

fun js_mul :: "jsnum \<Rightarrow> jsnum \<Rightarrow> jsnum" where
  "js_mul (Fin x) (Fin y) = Fin (x * y)"
| "js_mul NaN _ = NaN"
| "js_mul _ NaN = NaN"
| "js_mul (Fin x) PosInf = (if x = 0 then NaN else signed_inf x)"
| "js_mul (Fin x) NegInf = (if x = 0 then NaN else signed_inf (- x))"
| "js_mul PosInf (Fin y) = (if y = 0 then NaN else signed_inf y)"
| "js_mul NegInf (Fin y) = (if y = 0 then NaN else signed_inf (- y))"
| "js_mul PosInf PosInf = PosInf"
| "js_mul NegInf NegInf = PosInf"
| "js_mul PosInf NegInf = NegInf"
| "js_mul NegInf PosInf = NegInf"

fun js_div :: "jsnum \<Rightarrow> jsnum \<Rightarrow> jsnum" where
  "js_div (Fin x) (Fin y) =
     (if y = 0 then (if x = 0 then NaN else signed_inf x) else Fin (x / y))"
| "js_div NaN _ = NaN"
| "js_div _ NaN = NaN"
| "js_div (Fin x) PosInf = Fin 0"
| "js_div (Fin x) NegInf = Fin 0"
| "js_div PosInf (Fin y) = signed_inf y"
| "js_div NegInf (Fin y) = signed_inf (- y)"
| "js_div _ _ = NaN"

text \<open>The remainder operator \<open>%\<close>: the result takes the sign of the dividend.\<close>

fun js_rem :: "jsnum \<Rightarrow> jsnum \<Rightarrow> jsnum" where
  "js_rem (Fin x) (Fin y) =
     (if y = 0 then NaN
      else Fin (if 0 \<le> x then x - \<bar>y\<bar> * of_int \<lfloor>x / \<bar>y\<bar>\<rfloor>
                else - (- x - \<bar>y\<bar> * of_int \<lfloor>- x / \<bar>y\<bar>\<rfloor>)))"
| "js_rem (Fin x) PosInf = Fin x"
| "js_rem (Fin x) NegInf = Fin x"
| "js_rem _ _ = NaN"

fun js_floor :: "jsnum \<Rightarrow> jsnum" where
  "js_floor (Fin x) = Fin (of_int \<lfloor>x\<rfloor>)"
| "js_floor v = v"

text \<open>\<open>Math.round\<close> rounds halves towards plus infinity.\<close>

fun js_round :: "jsnum \<Rightarrow> jsnum" where
  "js_round (Fin x) = Fin (of_int \<lfloor>x + 1 / 2\<rfloor>)"
| "js_round v = v"

fun js_isInteger :: "jsnum \<Rightarrow> bool" where
  "js_isInteger (Fin x) = (of_int \<lfloor>x\<rfloor> = x)"
| "js_isInteger _ = False"

section \<open>Strings of numbers\<close>

definition digit_char :: "nat \<Rightarrow> char" where
  "digit_char d = ''0123456789'' ! (d mod 10)"

function string_of_nat :: "nat \<Rightarrow> string" where
  "string_of_nat n =
     (if n < 10 then [digit_char n] else string_of_nat (n div 10) @ [digit_char (n mod 10)])"
  by pat_completeness auto
termination
  by (relation "measure id") auto

declare string_of_nat.simps [simp del]

text \<open>
  \<open>String(v)\<close> and template interpolation of a number. The program prints only integers
  (results of \<open>Math.floor\<close>, \<open>Math.round\<close> and \<open>%\<close>) and, in \<open>floorToOneDecimal\<close>, an
  integer divided by ten; for these the decimal digits below are what JavaScript prints,
  as long as the magnitude is below \<open>10^21\<close>. Any other finite value is printed truncated
  to one decimal here, which no call of the program reaches.
\<close>

fun js_String :: "jsnum \<Rightarrow> string" where
  "js_String NaN = ''NaN''"
| "js_String PosInf = ''Infinity''"
| "js_String NegInf = ''-Infinity''"
| "js_String (Fin x) =
     (let k = nat \<lfloor>\<bar>x\<bar> * 10\<rfloor> in
        (if x < 0 then ''-'' else '''') @ string_of_nat (k div 10) @
        (if k mod 10 = 0 then '''' else ''.'' @ [digit_char (k mod 10)]))"

text \<open>
  \<open>v.toFixed(2)\<close>: the sign, then the integer \<open>n\<close> nearest to \<open>|v| * 100\<close> (the larger one
  of two), written with two digits after the point (for magnitudes below \<open>10^21\<close>).
\<close>

fun toFixed2 :: "jsnum \<Rightarrow> string" where
  "toFixed2 NaN = ''NaN''"
| "toFixed2 PosInf = ''Infinity''"
| "toFixed2 NegInf = ''-Infinity''"
| "toFixed2 (Fin x) =
     (let n = nat \<lfloor>\<bar>x\<bar> * 100 + 1 / 2\<rfloor> in
        (if x < 0 then ''-'' else '''') @ string_of_nat (n div 100) @ ''.'' @
        [digit_char (n mod 100 div 10), digit_char (n mod 10)])"

definition padStart :: "nat \<Rightarrow> string \<Rightarrow> string" where
  "padStart n s = replicate (n - length s) CHR '' '' @ s"

section \<open>humanize.ts\<close>

definition floorToOneDecimal :: "jsnum \<Rightarrow> string" where
  "floorToOneDecimal f = js_String (js_div (js_floor (js_mul f (Fin 10))) (Fin 10))"

definition twoChar :: "jsnum \<Rightarrow> string" where
  "twoChar n = (if js_lt n (Fin 10) then js_String n else '' '' @ js_String n)"

definition humanizeSpeed :: "jsnum \<Rightarrow> string" where
  "humanizeSpeed speed =
     (if js_eq speed (Fin 0) then ''0 bps''
      else if js_lt speed (Fin 1000) then toFixed2 speed @ '' bps''
      else if js_lt speed (Fin (1000 * 1000)) then
        floorToOneDecimal (js_div speed (Fin 1000)) @ '' kbps''
      else if js_lt speed (Fin (1000 * 1000 * 1000)) then
        floorToOneDecimal (js_div speed (Fin (1000 * 1000))) @ '' mbps''
      else if js_lt speed (Fin (1000 * 1000 * 1000 * 1000)) then
        floorToOneDecimal (js_div speed (Fin (1000 * 1000 * 1000))) @ '' gbps''
      else if js_lt speed (Fin (1000 * 1000 * 1000 * 1000 * 100)) then
        js_String (js_floor (js_div speed (Fin (1000 * 1000 * 1000)))) @ '' gbps''
      else ''99999 gbps'')"

definition humanizeDuration :: "jsnum \<Rightarrow> string" where
  "humanizeDuration duration0 =
     (if js_eq duration0 (Fin 0) then ''done''
      else if js_eq PosInf duration0 then ''--''
      else
        let duration = js_round duration0 in
        if js_lt duration (Fin 60) then js_String duration @ ''s''
        else if js_lt duration (Fin (60 * 60)) then
          (let second = js_rem duration (Fin 60);
               minute = js_div (js_sub duration second) (Fin 60)
           in js_String minute @ ''m'' @ twoChar second @ ''s'')
        else if js_lt duration (Fin (60 * 60 * 100)) then
          (let minute = js_rem (js_floor (js_div duration (Fin 60))) (Fin 60);
               hour = js_floor (js_div duration (Fin (60 * 60)))
           in js_String hour @ ''h'' @ twoChar minute @ ''m'')
        else if js_lt duration (Fin (60 * 60 * 24 * 100)) then
          (let hour = js_rem (js_floor (js_div duration (Fin (60 * 60)))) (Fin 24);
               day = js_floor (js_div duration (Fin (60 * 60 * 24)))
           in js_String day @ ''d'' @ twoChar hour @ ''h'')
        else if js_lt duration (Fin (60 * 60 * 24 * 100000)) then
          (let day = js_floor (js_div duration (Fin (60 * 60 * 24)))
           in js_String day @ ''d'')
        else ''99999d'')"

section \<open>Errors and JavaScript arrays\<close>

text \<open>
  A \<open>throw\<close> of the source, or a \<open>TypeError\<close> or \<open>RangeError\<close> raised by the engine, is
  a value. A constructor, and a method that throws only before it changes anything, returns
  the exception or its result (\<open>Inl\<close> the exception). A method of the bar returns the
  exception, if any, beside the bar as the call left it, so that what a failed call has
  changed can be stated.
\<close>

datatype error = TypeError string | Error string | RangeError string

text \<open>
  An array is a list of slots; \<open>None\<close> is a hole, which reads as \<open>undefined\<close>, as a read
  past the end does. A write past the end extends the array.
\<close>

definition js_array_get :: "'a option list \<Rightarrow> nat \<Rightarrow> 'a option" where
  "js_array_get xs i = (if i < length xs then xs ! i else None)"

definition js_array_set :: "'a option list \<Rightarrow> nat \<Rightarrow> 'a \<Rightarrow> 'a option list" where
  "js_array_set xs i v =
     (if i < length xs then xs[i := Some v]
      else xs @ replicate (i - length xs) None @ [Some v])"

text \<open>
  \<open>s.repeat(count)\<close>: the count is truncated towards zero, \<open>NaN\<close> counts as zero, and a
  negative or infinite count is a \<open>RangeError\<close>.
\<close>

fun js_repeat :: "string \<Rightarrow> jsnum \<Rightarrow> error + string" where
  "js_repeat s NaN = Inr []"
| "js_repeat s PosInf = Inl (RangeError ''Invalid count value: Infinity'')"
| "js_repeat s NegInf = Inl (RangeError ''Invalid count value: -Infinity'')"
| "js_repeat s (Fin x) =
     (if x \<le> - 1 then Inl (RangeError ''Invalid count value'')
      else Inr (concat (replicate (nat \<lfloor>x\<rfloor>) s)))"

text \<open>The natural number an integer-valued number stands for.\<close>

fun js_to_nat :: "jsnum \<Rightarrow> nat" where
  "js_to_nat (Fin x) = nat \<lfloor>x\<rfloor>"
| "js_to_nat _ = 0"

section \<open>eta-tracker.ts: the queue\<close>

record 'a Queue =
  capacity :: nat
  content :: "'a option list"
  index :: nat

definition Queue_new :: "jsnum \<Rightarrow> error + 'a Queue" where
  "Queue_new c =
     (if \<not> js_isInteger c then Inl (TypeError ''capacity must be an integer'')
      else if js_lt c (Fin 1) then Inl (Error ''capacity must be at least 1'')
      else Inr \<lparr>capacity = js_to_nat c, content = [], index = 0\<rparr>)"

definition push :: "'a \<Rightarrow> 'a Queue \<Rightarrow> 'a Queue" where
  "push element q =
     (if length (content q) = capacity q then
        (let q1 = q\<lparr>content := js_array_set (content q) (index q) element\<rparr>;
             q2 = q1\<lparr>index := index q1 + 1\<rparr>
         in if index q2 = capacity q2 then q2\<lparr>index := 0\<rparr> else q2)
      else q\<lparr>content := content q @ [Some element]\<rparr>)"

definition oldest :: "'a Queue \<Rightarrow> 'a option" where
  "oldest q = js_array_get (content q) (index q)"

text \<open>Pushing the elements of a list, first to last.\<close>

definition push_all :: "'a list \<Rightarrow> 'a Queue \<Rightarrow> 'a Queue" where
  "push_all xs q = foldl (\<lambda>q x. push x q) q xs"

section \<open>eta-tracker.ts: the tracker\<close>

text \<open>
  A sample of the window, \<open>{ progress, time }\<close> in the source, and the estimate a call
  returns, \<open>{ eta, speed }\<close>.
\<close>

record Sample =
  s_progress :: int
  s_time :: int

record EtaTracker =
  slidingWindow :: "Sample Queue"

record Estimate =
  eta :: jsnum
  speed :: jsnum

text \<open>\<open>now\<close> is what \<open>Date.now()\<close> returns during the call.\<close>

definition EtaTracker_new :: "int \<Rightarrow> jsnum \<Rightarrow> error + EtaTracker" where
  "EtaTracker_new now slidingWindowWidth =
     (case Queue_new slidingWindowWidth of
        Inl e \<Rightarrow> Inl e
      | Inr q \<Rightarrow> Inr \<lparr>slidingWindow = push \<lparr>s_progress = 0, s_time = now\<rparr> q\<rparr>)"

text \<open>
  \<open>total\<close> is \<open>None\<close> for \<open>null\<close>. Reading \<open>oldestRecord.time\<close> of an empty window is a
  \<open>TypeError\<close>, raised before anything is changed.
\<close>

definition updateProgressAndGetLatestEta ::
  "int \<Rightarrow> int \<Rightarrow> int option \<Rightarrow> EtaTracker \<Rightarrow> error + (Estimate \<times> EtaTracker)" where
  "updateProgressAndGetLatestEta now currentProgress total_opt tr =
     (let currentTime = now in
      case oldest (slidingWindow tr) of
        None \<Rightarrow> Inl (TypeError ''Cannot read properties of undefined'')
      | Some oldestRecord \<Rightarrow>
          (let timeElapsed =
                 js_sub (Fin (of_int currentTime)) (Fin (of_int (s_time oldestRecord)));
               progressElapsed =
                 js_sub (Fin (of_int currentProgress)) (Fin (of_int (s_progress oldestRecord)));
               speed_v = js_div (js_mul progressElapsed (Fin 1000)) timeElapsed;
               eta_v =
                 (if total_opt = Some currentProgress then Fin 0
                  else case total_opt of
                    None \<Rightarrow> PosInf
                  | Some t \<Rightarrow>
                      js_div (js_sub (Fin (of_int t)) (Fin (of_int currentProgress))) speed_v)
           in Inr (\<lparr>eta = eta_v, speed = speed_v\<rparr>,
                   tr\<lparr>slidingWindow :=
                        push \<lparr>s_progress = currentProgress, s_time = currentTime\<rparr>
                          (slidingWindow tr)\<rparr>)))"

text \<open>
  The calls made on a tracker, in order, each with the time of the call, the progress and
  the total; and the sample a call records.
\<close>

fun updates :: "(int \<times> int \<times> int option) list \<Rightarrow> EtaTracker \<Rightarrow> error + EtaTracker" where
  "updates [] tr = Inr tr"
| "updates ((now, p, t) # calls) tr =
     (case updateProgressAndGetLatestEta now p t tr of
        Inl e \<Rightarrow> Inl e
      | Inr (est, tr') \<Rightarrow> updates calls tr')"

fun sample_of :: "int \<times> int \<times> int option \<Rightarrow> Sample" where
  "sample_of (now, p, t) = \<lparr>s_progress = p, s_time = now\<rparr>"

section \<open>cursor-util.ts and the output stream\<close>

text \<open>
  What the program does to its output stream and to the process is recorded, in order, as
  a list of events. \<open>CursorTo x None\<close> is \<open>cursorTo(x)\<close>, \<open>CursorTo x (Some y)\<close> is
  \<open>cursorTo(x, y)\<close>.
\<close>

datatype event =
    Write string
  | CursorTo int "int option"
  | MoveCursor int int
  | ClearLine int
  | StdinResume
  | StdinPause
  | AddListener string
  | RemoveListener string

record WriteStream =
  ws_isTTY :: bool
  ws_columns :: nat
  ws_rows :: nat
  isMac :: bool

definition ESC :: string where
  "ESC = [CHR 0x1B, CHR ''['']"

definition cursorHide :: string where
  "cursorHide = ESC @ ''?25l''"

definition cursorShow :: string where
  "cursorShow = ESC @ ''?25h''"

text \<open>
  \<open>isMac\<close> is read from the environment when the module is loaded; the model keeps it
  beside the stream.
\<close>

definition cursorSave :: "bool \<Rightarrow> string" where
  "cursorSave mac = (if mac then [CHR 0x1B, CHR ''7''] else ESC @ ''s'')"

definition cursorRestore :: "bool \<Rightarrow> string" where
  "cursorRestore mac = (if mac then [CHR 0x1B, CHR ''8''] else ESC @ ''u'')"

definition hideCursor_events :: "event list" where
  "hideCursor_events =
     [Write cursorHide, StdinResume, AddListener ''SIGINT'', AddListener ''exit'']"

definition showCursor_events :: "event list" where
  "showCursor_events =
     [RemoveListener ''exit'', RemoveListener ''SIGINT'', StdinPause, Write cursorShow]"

section \<open>progress-bar.ts\<close>

text \<open>
  The class \<open>ProgressBar\<close>: its constructor, \<open>start\<close>, \<open>draw\<close>, \<open>refresh\<close>, \<open>tick\<close>,
  \<open>stop\<close> and \<open>log\<close>, and the callback of the timer.
\<close>

definition C_PROCESSED_BAR :: string where
  "C_PROCESSED_BAR = ''#''"

definition C_UNPROCESSED_BAR :: string where
  "C_UNPROCESSED_BAR = ''-''"

definition C_COLUMN_SEPARATOR :: string where
  "C_COLUMN_SEPARATOR = ''|''"

definition MIN_BAR_WIDTH :: nat where
  "MIN_BAR_WIDTH = 16"

record Options =
  width :: "jsnum option"
  output_opt :: "WriteStream option"
  clearAfterStop_opt :: "bool option"
  bottom :: "bool option"
  tryNotToBlink_opt :: "bool option"

datatype BarState = READY | RUNNING | STOPPED

text \<open>
  The handle of \<open>setInterval\<close>: \<open>Active\<close> while the callback is scheduled, \<open>Cancelled\<close>
  once \<open>clearInterval\<close> was called on it.
\<close>

datatype Timeout = Active | Cancelled

definition clearInterval :: "Timeout option \<Rightarrow> Timeout option" where
  "clearInterval t = (case t of None \<Rightarrow> None | Some _ \<Rightarrow> Some Cancelled)"

text \<open>
  The fields of the class, and \<open>events\<close>: what was done to the output stream and to the
  process so far. \<open>progress\<close> and \<open>total\<close> hold integers that are not negative.
\<close>

record ProgressBar =
  outputStream :: WriteStream
  isTTY :: bool
  drawAtBottom :: bool
  tryNotToBlink :: bool
  fixedOutputWidth :: "nat option"
  progress :: nat
  total :: nat
  clearAfterStop :: bool
  state :: BarState
  etaUpdateInterval :: "Timeout option"
  etaCalculator :: "EtaTracker option"
  latestEta :: "Estimate option"
  events :: "event list"

definition emit :: "event list \<Rightarrow> ProgressBar \<Rightarrow> ProgressBar" where
  "emit es b = b\<lparr>events := events b @ es\<rparr>"

definition outputWidth :: "ProgressBar \<Rightarrow> nat" where
  "outputWidth b = (case fixedOutputWidth b of Some w \<Rightarrow> w | None \<Rightarrow> ws_columns (outputStream b))"


definition start :: "int \<Rightarrow> ProgressBar \<Rightarrow> error option \<times> ProgressBar" where
  "start now b =
     (if state b \<noteq> READY then (Some (Error ''cannot start() twice''), b)
      else if \<not> isTTY b then (None, b)
      else
        (case EtaTracker_new now (Fin 120) of
           Inl e \<Rightarrow> (Some e, b)
         | Inr tr \<Rightarrow>
             (let b1 = b\<lparr>etaCalculator := Some tr\<rparr>;
                  b2 = b1\<lparr>etaUpdateInterval := Some Active\<rparr>;
                  b3 = emit hideCursor_events b2
              in (None, b3\<lparr>state := RUNNING\<rparr>))))"

definition draw :: "string \<Rightarrow> ProgressBar \<Rightarrow> ProgressBar" where
  "draw out b =
     (if drawAtBottom b then
        emit ([Write (cursorSave (isMac (outputStream b))),
               CursorTo 0 (Some (int (ws_rows (outputStream b)) - 1)),
               Write out]
              @ (if length out < outputWidth b then [ClearLine 1] else [])
              @ [Write (cursorRestore (isMac (outputStream b)))]) b
      else
        emit ([CursorTo 0 None, Write out]
              @ (if length out < outputWidth b then [ClearLine 1] else [])) b)"

text \<open>
  The closure \<open>renderBarSectionAndThenDraw\<close> of \<open>refresh\<close>, with the variables it reads
  from \<open>refresh\<close> as arguments.
\<close>

definition renderBarSectionAndThenDraw ::
  "nat \<Rightarrow> jsnum \<Rightarrow> string \<Rightarrow> string \<Rightarrow> string \<Rightarrow> string \<Rightarrow> ProgressBar
     \<Rightarrow> error option \<times> ProgressBar" where
  "renderBarSectionAndThenDraw remainingWidth completeRatio progressAndTotalSection
       percentageSection etaSection speedSection b =
     (let barWidth = MIN_BAR_WIDTH + remainingWidth - 2;
          processCharCount = js_floor (js_mul (Fin (of_nat barWidth)) completeRatio);
          unprocessedCharCount = js_sub (Fin (of_nat barWidth)) processCharCount
      in case js_repeat C_PROCESSED_BAR processCharCount of
           Inl e \<Rightarrow> (Some e, b)
         | Inr processed \<Rightarrow>
             (case js_repeat C_UNPROCESSED_BAR unprocessedCharCount of
                Inl e \<Rightarrow> (Some e, b)
              | Inr unprocessed \<Rightarrow>
                  (let bar = ''['' @ processed @ unprocessed @ '']'';
                       b1 = draw (bar @ progressAndTotalSection @ percentageSection
                                    @ etaSection @ speedSection) b
                   in (None,
                       if total b1 = progress b1
                       then b1\<lparr>etaUpdateInterval := clearInterval (etaUpdateInterval b1)\<rparr>
                       else b1))))"

text \<open>
  The first estimate, made by \<open>refresh\<close> when no timer firing has made one yet.
\<close>

definition latestEtaOrUpdate :: "int \<Rightarrow> ProgressBar \<Rightarrow> error + (Estimate \<times> ProgressBar)" where
  "latestEtaOrUpdate now b =
     (case latestEta b of
        Some l \<Rightarrow> Inr (l, b)
      | None \<Rightarrow>
          (case etaCalculator b of
             None \<Rightarrow> Inl (TypeError ''Cannot read properties of undefined'')
           | Some tr \<Rightarrow>
               (case updateProgressAndGetLatestEta now (int (progress b))
                       (Some (int (total b))) tr of
                  Inl e \<Rightarrow> Inl e
                | Inr (l, tr') \<Rightarrow>
                    Inr (l, b\<lparr>etaCalculator := Some tr', latestEta := Some l\<rparr>))))"

definition refresh :: "int \<Rightarrow> ProgressBar \<Rightarrow> error option \<times> ProgressBar" where
  "refresh now b =
     (if outputWidth b < MIN_BAR_WIDTH then
        (None, draw (concat (replicate (outputWidth b) ''#'')) b)
      else
        let remainingWidth = outputWidth b - MIN_BAR_WIDTH;
            completeRatio = js_div (Fin (of_nat (progress b))) (Fin (of_nat (total b)))
        in
        if remainingWidth < 7 then
          renderBarSectionAndThenDraw remainingWidth completeRatio [] [] [] [] b
        else
          case latestEtaOrUpdate now b of
            Inl e \<Rightarrow> (Some e, b)
          | Inr (l, b) \<Rightarrow>
        let humanizedDuration = humanizeDuration (eta l);
            etaSection = padStart 7 humanizedDuration;
            remainingWidth = remainingWidth - 7;
            progressAndTotalSectionWidth = length (string_of_nat (total b)) * 2 + 4
        in
        if remainingWidth < length (string_of_nat (total b)) * 2 + 4 then
          renderBarSectionAndThenDraw remainingWidth completeRatio [] [] etaSection [] b
        else
        let progressAndTotalSection =
              padStart (length (string_of_nat (total b)) * 2 + 2)
                (string_of_nat (progress b) @ ''/'' @ string_of_nat (total b));
            etaSection = '' '' @ C_COLUMN_SEPARATOR @ etaSection;
            remainingWidth = remainingWidth - progressAndTotalSectionWidth
        in
        if remainingWidth < 13 then
          renderBarSectionAndThenDraw remainingWidth completeRatio progressAndTotalSection []
            etaSection [] b
        else
        let speedSection =
              '' '' @ C_COLUMN_SEPARATOR @ '' '' @ padStart 10 (humanizeSpeed (speed l));
            remainingWidth = remainingWidth - 13
        in
        if remainingWidth < 6 then
          renderBarSectionAndThenDraw remainingWidth completeRatio progressAndTotalSection []
            etaSection speedSection b
        else
        let percentage =
              padStart 6 (''('' @ js_String (js_floor (js_mul completeRatio (Fin 100))) @ ''%)'');
            percentageSection = percentage;
            remainingWidth = remainingWidth - 6
        in
        if remainingWidth < 4 then
          renderBarSectionAndThenDraw remainingWidth completeRatio progressAndTotalSection
            percentageSection etaSection speedSection b
        else
        let etaSection =
              '' '' @ C_COLUMN_SEPARATOR @ '' '' @ padStart 10 (''eta '' @ humanizedDuration);
            remainingWidth = remainingWidth - 4
        in
          renderBarSectionAndThenDraw remainingWidth completeRatio progressAndTotalSection
            percentageSection etaSection speedSection b)"

text \<open>The callback of \<open>setInterval\<close> in \<open>start\<close>, and one firing of the timer.\<close>

definition intervalCallback :: "int \<Rightarrow> ProgressBar \<Rightarrow> error option \<times> ProgressBar" where
  "intervalCallback now b =
     (case etaCalculator b of
        None \<Rightarrow> (Some (TypeError ''Cannot read properties of undefined''), b)
      | Some tr \<Rightarrow>
          (case updateProgressAndGetLatestEta now (int (progress b)) (Some (int (total b))) tr of
             Inl e \<Rightarrow> (Some e, b)
           | Inr (l, tr') \<Rightarrow> refresh now (b\<lparr>etaCalculator := Some tr', latestEta := Some l\<rparr>)))"

definition timerFires :: "int \<Rightarrow> ProgressBar \<Rightarrow> error option \<times> ProgressBar" where
  "timerFires now b =
     (if etaUpdateInterval b = Some Active then intervalCallback now b else (None, b))"

definition tick :: "int \<Rightarrow> jsnum \<Rightarrow> ProgressBar \<Rightarrow> error option \<times> ProgressBar" where
  "tick now val b =
     (if \<not> js_isInteger val then (Some (TypeError ''value must be an integer''), b)
      else if js_lt val (Fin 1) then (Some (Error ''value must be at least 1''), b)
      else if state b \<noteq> RUNNING then (Some (Error ''progress bar is not running''), b)
      else if js_lt (Fin (of_nat (total b))) (js_add (Fin (of_nat (progress b))) val) then
        (Some (Error (''progress '' @ js_String (js_add (Fin (of_nat (progress b))) val)
                        @ '' exceeds total '' @ string_of_nat (total b))), b)
      else if \<not> isTTY b then (None, b)
      else refresh now (b\<lparr>progress := progress b + js_to_nat val\<rparr>))"

definition stop :: "ProgressBar \<Rightarrow> error option \<times> ProgressBar" where
  "stop b =
     (if state b = READY then (Some (Error ''progress bar is not running''), b)
      else if \<not> isTTY b \<or> state b = STOPPED then (None, b)
      else
        (let b1 = b\<lparr>etaUpdateInterval := clearInterval (etaUpdateInterval b)\<rparr>;
             b2 =
               (if clearAfterStop b1 then
                  (if drawAtBottom b1 then
                     emit [Write (cursorSave (isMac (outputStream b1))),
                           CursorTo 0 (Some (int (ws_rows (outputStream b1)) - 1)),
                           ClearLine 1,
                           Write (cursorRestore (isMac (outputStream b1)))] b1
                   else emit [CursorTo 0 None, ClearLine 1] b1)
                else emit [Write [CHR 0x0A]] b1);
             b3 = emit showCursor_events b2
         in (None, b3\<lparr>state := STOPPED\<rparr>)))"

text \<open>
  \<open>log\<close>, with the message as \<open>util.format\<close> returned it. (The name \<open>log\<close> is the logarithm
  in HOL.)
\<close>

definition log_bar :: "int \<Rightarrow> string \<Rightarrow> ProgressBar \<Rightarrow> error option \<times> ProgressBar" where
  "log_bar now message b =
     (if \<not> isTTY b \<or> state b \<noteq> RUNNING then
        (None, emit [Write message, Write [CHR 0x0A]] b)
      else if drawAtBottom b then
        (if tryNotToBlink b then
           refresh now
             (emit [Write [CHR 0x0A], MoveCursor 0 (- 1), Write message, ClearLine 1,
                    CursorTo 0 None, MoveCursor 0 1] b)
         else refresh now (emit [Write message, ClearLine 1, Write [CHR 0x0A]] b))
      else
        (if tryNotToBlink b then
           (case refresh now (emit [Write [CHR 0x0A]] b) of
              (Some e, b1) \<Rightarrow> (Some e, b1)
            | (None, b1) \<Rightarrow>
                (None, emit [MoveCursor 0 (- 1), CursorTo 0 None, Write message, ClearLine 1,
                             MoveCursor 0 1] b1))
         else
           refresh now
             (emit [CursorTo 0 None, Write message, ClearLine 1, Write [CHR 0x0A]] b)))"

section \<open>Runs of a bar\<close>

text \<open>
  What happens to a bar after it is built: the calls the program makes on it and the
  firings of its timer, in order, each with the time at which it happens. A call that
  throws leaves the bar as the call left it, and the run goes on.
\<close>

datatype call = Start int | Tick int jsnum | Stop | Log int string | TimerFires int

fun perform :: "call \<Rightarrow> ProgressBar \<Rightarrow> error option \<times> ProgressBar" where
  "perform (Start now) b = start now b"
| "perform (Tick now val) b = tick now val b"
| "perform Stop b = stop b"
| "perform (Log now message) b = log_bar now message b"
| "perform (TimerFires now) b = timerFires now b"

definition run :: "call list \<Rightarrow> ProgressBar \<Rightarrow> ProgressBar" where
  "run calls b = foldl (\<lambda>b c. snd (perform c b)) b calls"

section \<open>Concrete streams and bars\<close>

text \<open>
  An interactive terminal of 80 columns and 24 rows, an output that is not a terminal, the
  options \<open>{ width: w }\<close>, and the object \<open>new ProgressBar(t, { width: w })\<close> builds on the
  stream \<open>s\<close>.
\<close>

definition tty :: WriteStream where
  "tty = \<lparr>ws_isTTY = True, ws_columns = 80, ws_rows = 24, isMac = False\<rparr>"

definition pipe :: WriteStream where
  "pipe = \<lparr>ws_isTTY = False, ws_columns = 80, ws_rows = 24, isMac = False\<rparr>"

definition options_width :: "nat \<Rightarrow> Options" where
  "options_width w =
     \<lparr>width = Some (Fin (of_nat w)), output_opt = None, clearAfterStop_opt = None,
      bottom = None, tryNotToBlink_opt = None\<rparr>"

definition new_bar :: "WriteStream \<Rightarrow> nat \<Rightarrow> nat \<Rightarrow> ProgressBar" where
  "new_bar s t w =
     \<lparr>outputStream = s, isTTY = ws_isTTY s, drawAtBottom = False, tryNotToBlink = False,
      fixedOutputWidth = Some w, progress = 0, total = t, clearAfterStop = False,
      state = READY, etaUpdateInterval = None, etaCalculator = None, latestEta = None,
      events = []\<rparr>"

section \<open>Evaluating the model\<close>

lemma replicate_numeral: "replicate (numeral k) x = x # replicate (pred_numeral k) x"
  by (simp add: numeral_eq_Suc)

lemma concat_replicate_single: "concat (replicate n [c]) = replicate n c"
  by (induction n) simp_all

lemmas str_eval = string_of_nat.simps digit_char_def Let_def replicate_numeral

lemmas humanize_eval = humanizeDuration_def humanizeSpeed_def floorToOneDecimal_def
  twoChar_def js_sub_def padStart_def

lemmas queue_eval = Queue_new_def push_def oldest_def js_array_get_def js_array_set_def
  EtaTracker_new_def updateProgressAndGetLatestEta_def

lemmas bar_eval = start_def tick_def stop_def refresh_def renderBarSectionAndThenDraw_def
  latestEtaOrUpdate_def draw_def emit_def outputWidth_def clearInterval_def
  MIN_BAR_WIDTH_def C_PROCESSED_BAR_def C_UNPROCESSED_BAR_def C_COLUMN_SEPARATOR_def
  hideCursor_events_def showCursor_events_def

lemmas fixture_eval = tty_def pipe_def options_width_def new_bar_def


lemma start_new_bar_tty:
  "start now (new_bar tty t w) =
     (None,
      \<lparr>outputStream = tty, isTTY = True, drawAtBottom = False, tryNotToBlink = False,
       fixedOutputWidth = Some w, progress = 0, total = t, clearAfterStop = False,
       state = RUNNING, etaUpdateInterval = Some Active,
       etaCalculator =
         Some \<lparr>slidingWindow =
                 \<lparr>capacity = 120, content = [Some \<lparr>s_progress = 0, s_time = now\<rparr>],
                  index = 0\<rparr>\<rparr>,
       latestEta = None, events = hideCursor_events\<rparr>)"
  by (simp add: start_def emit_def queue_eval fixture_eval)

section \<open>Printing numbers\<close>

lemma length_padStart: "length (padStart n s) = max n (length s)"
  by (simp add: padStart_def)

lemma length_string_of_nat:
  "length (string_of_nat n) = (if n < 10 then 1 else Suc (length (string_of_nat (n div 10))))"
  by (subst string_of_nat.simps) simp

lemma length_string_of_nat_mono:
  "m \<le> n \<Longrightarrow> length (string_of_nat m) \<le> length (string_of_nat n)"
proof (induction n arbitrary: m rule: string_of_nat.induct)
  case (1 n)
  show ?case
  proof (cases "n < 10")
    case True
    with "1.prems" have "m < 10" by simp
    with True show ?thesis by (simp add: length_string_of_nat)
  next
    case False
    show ?thesis
    proof (cases "m < 10")
      case True
      with False show ?thesis by (simp add: length_string_of_nat)
    next
      case m: False
      from "1.prems" have "m div 10 \<le> n div 10" by (rule div_le_mono)
      with "1.IH" [OF False]
      have "length (string_of_nat (m div 10)) \<le> length (string_of_nat (n div 10))"
        by simp
      with False m show ?thesis
        by (simp add: length_string_of_nat [of m] length_string_of_nat [of n])
    qed
  qed
qed

text \<open>An integer that is not negative is printed as its decimal digits.\<close>

lemma js_String_of_nat:
  assumes "0 \<le> j"
  shows "js_String (Fin (of_int j)) = string_of_nat (nat j)"
proof -
  have "\<lfloor>\<bar>real_of_int j\<bar> * 10\<rfloor> = j * 10"
    using assms by (simp add: abs_of_nonneg) (metis floor_of_int of_int_mult of_int_numeral)
  then show ?thesis
    using assms by (simp add: Let_def nat_mult_distrib)
qed

lemma length_string_of_nat_le3: "n \<le> 999 \<Longrightarrow> length (string_of_nat n) \<le> 3"
  using length_string_of_nat_mono [of n 999] by (simp add: string_of_nat.simps)

lemma length_string_of_nat_le5: "n \<le> 99999 \<Longrightarrow> length (string_of_nat n) \<le> 5"
  using length_string_of_nat_mono [of n 99999] by (simp add: string_of_nat.simps)

lemma length_toFixed2:
  assumes "0 \<le> v"
  shows "length (toFixed2 (Fin v))
     = length (string_of_nat (nat \<lfloor>v * 100 + 1 / 2\<rfloor> div 100)) + 3"
  using assms by (simp add: Let_def abs_of_nonneg)

lemma js_rem_of_int:
  assumes "0 \<le> a" and "0 < b"
  shows "js_rem (Fin (of_int a)) (Fin (of_int b)) = Fin (of_int (a mod b))"
proof -
  have "real_of_int a - real_of_int b * of_int \<lfloor>real_of_int a / real_of_int b\<rfloor>
      = of_int (a - b * (a div b))"
    by (simp add: floor_divide_of_int_eq)
  also have "a - b * (a div b) = a mod b"
    by (simp add: minus_mult_div_eq_mod)
  finally show ?thesis
    using assms by (simp add: abs_of_pos)
qed

lemma js_div_minus_mod:
  assumes "0 < b"
  shows "js_div (js_sub (Fin (of_int a)) (Fin (of_int (a mod b)))) (Fin (of_int b))
     = Fin (of_int (a div b))"
proof -
  have "a - a mod b = b * (a div b)"
    by (simp add: minus_mod_eq_mult_div)
  then have "real_of_int a - real_of_int (a mod b) = real_of_int b * real_of_int (a div b)"
    by (metis of_int_diff of_int_mult)
  then show ?thesis
    using assms by (simp add: js_sub_def)
qed

section \<open>humanize.ts: the duration and the speed\<close>

text \<open>
  C4. The claim: a duration that rounds to at least 60 and less than 3600 seconds is
  rendered as minutes and seconds with the seconds right-aligned to width 2, so that
  \<open>humanizeDuration(61)\<close> is \<open>1m 1s\<close> and \<open>humanizeDuration(3661)\<close> is \<open>1h 1m\<close>. The code does
  the opposite: \<open>twoChar\<close> puts the space before a value of at least 10 and none before a
  value below 10, so that 61 seconds give \<open>1m1s\<close>, 3661 seconds give \<open>1h1m\<close>, and 620
  seconds give the seven characters \<open>10m 20s\<close>.
\<close>

theorem humanizeDuration_twoChar_inverted:
  "humanizeDuration (Fin 61) = ''1m1s''
   \<and> humanizeDuration (Fin 3661) = ''1h1m''
   \<and> humanizeDuration (Fin 620) = ''10m 20s''
   \<and> twoChar (Fin 1) = ''1'' \<and> twoChar (Fin 20) = '' 20''"
  by (simp add: humanize_eval str_eval)

text \<open>What \<open>twoChar\<close> returns for an integer that is not negative.\<close>

lemma twoChar_of_int:
  assumes "0 \<le> j"
  shows "twoChar (Fin (of_int j))
     = (if j < 10 then string_of_nat (nat j) else '' '' @ string_of_nat (nat j))"
proof -
  have "js_lt (Fin (of_int j)) (Fin 10) = (j < 10)"
    by simp
  then show ?thesis
    unfolding twoChar_def by (simp only: js_String_of_nat [OF assms])
qed

text \<open>
  X3. What the code does on the range of C4: a duration that rounds to \<open>n\<close> seconds,
  \<open>60 \<le> n < 3600\<close>, is rendered as the minutes, \<open>m\<close>, then the seconds with a space before
  them when they are at least 10 and none when they are below 10, then \<open>s\<close>.
\<close>

theorem humanizeDuration_minutes:
  assumes "60 \<le> \<lfloor>x + 1 / 2\<rfloor>" and "\<lfloor>x + 1 / 2\<rfloor> < 3600"
  shows "humanizeDuration (Fin x) =
     string_of_nat (nat (\<lfloor>x + 1 / 2\<rfloor> div 60)) @ ''m''
       @ (if \<lfloor>x + 1 / 2\<rfloor> mod 60 < 10 then string_of_nat (nat (\<lfloor>x + 1 / 2\<rfloor> mod 60))
          else '' '' @ string_of_nat (nat (\<lfloor>x + 1 / 2\<rfloor> mod 60)))
       @ ''s''"
proof -
  define n where "n = \<lfloor>x + 1 / 2\<rfloor>"
  have n60: "60 \<le> n" and n3600: "n < 3600" using assms by (simp_all add: n_def)
  have x0: "x \<noteq> 0" using assms(1) by auto
  have r: "js_round (Fin x) = Fin (of_int n)" by (simp add: n_def)
  have lt60: "\<not> js_lt (Fin (of_int n)) (Fin 60)"
    using n60 by simp
  have lt3600: "js_lt (Fin (of_int n)) (Fin (60 * 60))"
    using n3600 by simp
  have sixty: "Fin 60 = Fin (of_int 60)" by simp
  have sec: "js_rem (Fin (of_int n)) (Fin 60) = Fin (of_int (n mod 60))"
    unfolding sixty using n60 by (intro js_rem_of_int) simp_all
  have mnt: "js_div (js_sub (Fin (of_int n)) (Fin (of_int (n mod 60)))) (Fin 60)
      = Fin (of_int (n div 60))"
    unfolding sixty by (intro js_div_minus_mod) simp
  have m0: "0 \<le> n div 60" using n60 by simp
  have s0: "0 \<le> n mod 60" by simp
  have "humanizeDuration (Fin x) =
     js_String (Fin (of_int (n div 60))) @ ''m'' @ twoChar (Fin (of_int (n mod 60))) @ ''s''"
    unfolding humanizeDuration_def Let_def r sec mnt
    using x0 lt60 lt3600 by simp
  then have "humanizeDuration (Fin x) =
     string_of_nat (nat (n div 60)) @ ''m''
       @ (if n mod 60 < 10 then string_of_nat (nat (n mod 60))
          else '' '' @ string_of_nat (nat (n mod 60)))
       @ ''s''"
    by (simp only: js_String_of_nat [OF m0] twoChar_of_int [OF s0])
  then show ?thesis
    by (simp only: n_def)
qed

text \<open>620.5 seconds round to 621: ten minutes and 21 seconds, in seven characters.\<close>

theorem humanizeDuration_minutes_witness:
  "humanizeDuration (Fin (1241 / 2)) = ''10m 21s''"
  using humanizeDuration_minutes [of "1241 / 2"] by (simp add: str_eval)

text \<open>
  C5. The claim: \<open>humanizeSpeed\<close> returns at most 10 characters for every finite speed that
  is not negative. The code prints a speed below 1000 with \<open>toFixed(2)\<close>, which rounds
  999.999 up to \<open>1000.00\<close>: the result has 11 characters.
\<close>

theorem humanizeSpeed_999_999_has_11_characters:
  "humanizeSpeed (Fin (999999 / 1000)) = ''1000.00 bps''
   \<and> length (humanizeSpeed (Fin (999999 / 1000))) = 11"
  by (simp add: humanize_eval str_eval)

text \<open>\<open>floorToOneDecimal\<close> of a value below 1000 has at most 5 characters.\<close>

lemma length_floorToOneDecimal:
  assumes "0 \<le> f" and "f < 1000"
  shows "length (floorToOneDecimal (Fin f)) \<le> 5"
proof -
  define k where "k = \<lfloor>f * 10\<rfloor>"
  have k0: "0 \<le> k" using assms(1) by (simp add: k_def)
  have "f * 10 < 10000" using assms(2) by simp
  then have "k < 10000" unfolding k_def by (simp add: floor_less_iff)
  then have kd: "nat k div 10 \<le> 999" by simp
  have "\<lfloor>\<bar>real_of_int k / 10\<bar> * 10\<rfloor> = k"
    using k0 by (simp add: abs_of_nonneg)
  then have "js_String (Fin (of_int k / 10))
      = string_of_nat (nat k div 10)
        @ (if nat k mod 10 = 0 then [] else ''.'' @ [digit_char (nat k mod 10)])"
    using k0 by (simp add: Let_def)
  moreover have "floorToOneDecimal (Fin f) = js_String (Fin (of_int k / 10))"
    by (simp add: floorToOneDecimal_def k_def del: js_String.simps)
  ultimately show ?thesis
    using length_string_of_nat_le3 [OF kd] by simp
qed

text \<open>
  X4. What remains of C5: for a finite speed that is not negative, \<open>humanizeSpeed\<close> returns
  11 characters when \<open>999.995 \<le> v < 1000\<close> (where \<open>toFixed(2)\<close> rounds up to 1000.00), and
  at most 10 characters everywhere else.
\<close>

theorem humanizeSpeed_length:
  assumes "0 \<le> v"
  shows "if 999995 / 1000 \<le> v \<and> v < 1000 then length (humanizeSpeed (Fin v)) = 11
         else length (humanizeSpeed (Fin v)) \<le> 10"
proof -
  consider (zero) "v = 0" | (bps) "0 < v" "v < 999995 / 1000"
    | (edge) "999995 / 1000 \<le> v" "v < 1000"
    | (kbps) "1000 \<le> v" "v < 1000000" | (mbps) "1000000 \<le> v" "v < 1000000000"
    | (gbps) "1000000000 \<le> v" "v < 1000000000000"
    | (gbps_int) "1000000000000 \<le> v" "v < 100000000000000"
    | (clamp) "100000000000000 \<le> v"
    using assms by linarith
  then show ?thesis
  proof cases
    case zero
    then show ?thesis by (simp add: humanizeSpeed_def)
  next
    case bps
    define n where "n = \<lfloor>v * 100 + 1 / 2\<rfloor>"
    have "v * 100 + 1 / 2 < 100000" using bps(2) by simp
    then have "n < 100000" unfolding n_def by (simp add: floor_less_iff)
    then have "nat n div 100 \<le> 999" by arith
    from length_string_of_nat_le3 [OF this]
    have "length (string_of_nat (nat n div 100)) + 3 \<le> 6" by simp
    moreover have "length (toFixed2 (Fin v)) = length (string_of_nat (nat n div 100)) + 3"
      unfolding n_def using bps(1) by (intro length_toFixed2) simp
    ultimately have "length (toFixed2 (Fin v)) \<le> 6" by simp
    moreover have "humanizeSpeed (Fin v) = toFixed2 (Fin v) @ '' bps''"
      using bps by (simp add: humanizeSpeed_def del: toFixed2.simps)
    ultimately show ?thesis using bps(2) by simp
  next
    case edge
    define n where "n = \<lfloor>v * 100 + 1 / 2\<rfloor>"
    have "100000 \<le> v * 100 + 1 / 2" using edge(1) by simp
    then have lo: "100000 \<le> n" unfolding n_def by (simp add: le_floor_iff)
    have "v * 100 + 1 / 2 < 100001" using edge(2) by simp
    then have hi: "n < 100001" unfolding n_def by (simp add: floor_less_iff)
    from lo hi have "n = 100000" by simp
    then have "length (string_of_nat (nat n div 100)) + 3 = 7"
      by (simp add: string_of_nat.simps)
    moreover have "length (toFixed2 (Fin v)) = length (string_of_nat (nat n div 100)) + 3"
      unfolding n_def using edge(1) by (intro length_toFixed2) simp
    ultimately have "length (toFixed2 (Fin v)) = 7" by simp
    moreover have "humanizeSpeed (Fin v) = toFixed2 (Fin v) @ '' bps''"
      using edge by (simp add: humanizeSpeed_def del: toFixed2.simps)
    ultimately show ?thesis using edge by simp
  next
    case kbps
    have "length (floorToOneDecimal (Fin (v / 1000))) \<le> 5"
      using kbps by (intro length_floorToOneDecimal) simp_all
    moreover have "humanizeSpeed (Fin v) = floorToOneDecimal (Fin (v / 1000)) @ '' kbps''"
      using kbps by (simp add: humanizeSpeed_def)
    ultimately show ?thesis using kbps(1) by simp
  next
    case mbps
    have "length (floorToOneDecimal (Fin (v / 1000000))) \<le> 5"
      using mbps by (intro length_floorToOneDecimal) simp_all
    moreover have "humanizeSpeed (Fin v) = floorToOneDecimal (Fin (v / 1000000)) @ '' mbps''"
      using mbps by (simp add: humanizeSpeed_def)
    ultimately show ?thesis using mbps(1) by simp
  next
    case gbps
    have "length (floorToOneDecimal (Fin (v / 1000000000))) \<le> 5"
      using gbps by (intro length_floorToOneDecimal) simp_all
    moreover have "humanizeSpeed (Fin v) = floorToOneDecimal (Fin (v / 1000000000)) @ '' gbps''"
      using gbps by (simp add: humanizeSpeed_def)
    ultimately show ?thesis using gbps(1) by simp
  next
    case gbps_int
    define j where "j = \<lfloor>v / 1000000000\<rfloor>"
    have j0: "0 \<le> j" using assms by (simp add: j_def)
    have "v / 1000000000 < 100000" using gbps_int(2) by simp
    then have "j < 100000" unfolding j_def by (simp add: floor_less_iff)
    then have "nat j \<le> 99999" by arith
    from length_string_of_nat_le5 [OF this]
    have "length (js_String (Fin (of_int j))) \<le> 5"
      by (simp only: js_String_of_nat [OF j0])
    moreover have "humanizeSpeed (Fin v) = js_String (Fin (of_int j)) @ '' gbps''"
      using gbps_int by (simp add: humanizeSpeed_def j_def del: js_String.simps)
    ultimately show ?thesis using gbps_int(1) by simp
  next
    case clamp
    then show ?thesis by (simp add: humanizeSpeed_def)
  qed
qed

text \<open>1500 units per second fit; 999.995 and 999.9975 do not.\<close>

theorem humanizeSpeed_length_witness:
  "length (humanizeSpeed (Fin 1500)) \<le> 10
   \<and> length (humanizeSpeed (Fin (999995 / 1000))) = 11
   \<and> length (humanizeSpeed (Fin (9999975 / 10000))) = 11"
  using humanizeSpeed_length [of 1500] humanizeSpeed_length [of "999995 / 1000"]
    humanizeSpeed_length [of "9999975 / 10000"]
  by simp

section \<open>The queue keeps the most recent elements\<close>

lemma push_all_Nil: "push_all [] q = q"
  by (simp add: push_all_def)

lemma push_all_snoc: "push_all (xs @ [x]) q = push x (push_all xs q)"
  by (simp add: push_all_def)

lemma Queue_new_nat:
  "1 \<le> C \<Longrightarrow> Queue_new (Fin (of_nat C)) = Inr \<lparr>capacity = C, content = [], index = 0\<rparr>"
  by (simp add: Queue_new_def)

text \<open>While the queue is not full, it holds everything pushed so far, in order.\<close>

lemma push_all_filling:
  "length xs \<le> C \<Longrightarrow>
   push_all xs \<lparr>capacity = C, content = [], index = 0\<rparr>
     = \<lparr>capacity = C, content = map Some xs, index = 0\<rparr>"
proof (induction xs rule: rev_induct)
  case Nil
  show ?case by (simp add: push_all_Nil)
next
  case (snoc x xs)
  then have "length xs < C" by simp
  with snoc show ?case
    by (simp add: push_all_snoc push_def)
qed

lemma mod_neq_of_close:
  fixes m n C :: nat
  assumes "m < n" "n - m < C"
  shows "m mod C \<noteq> n mod C"
proof
  assume "m mod C = n mod C"
  then have "C dvd (n - m)"
    using assms(1) by (metis mod_eq_dvd_iff_nat less_imp_le_nat)
  moreover have "0 < n - m" using assms(1) by simp
  ultimately have "C \<le> n - m" by (simp add: dvd_imp_le)
  with assms(2) show False by simp
qed

text \<open>
  Once \<open>C\<close> elements were pushed, the array has \<open>C\<close> slots, \<open>index\<close> is the number of
  pushes modulo \<open>C\<close>, and the \<open>m\<close>-th element pushed (counting from 0) sits in slot
  \<open>m mod C\<close>, for each of the last \<open>C\<close> pushes.
\<close>

lemma push_all_ring:
  assumes "0 < C"
  shows "C \<le> length xs \<Longrightarrow>
     capacity (push_all xs \<lparr>capacity = C, content = [], index = 0\<rparr>) = C \<and>
     length (content (push_all xs \<lparr>capacity = C, content = [], index = 0\<rparr>)) = C \<and>
     index (push_all xs \<lparr>capacity = C, content = [], index = 0\<rparr>) = length xs mod C \<and>
     (\<forall>m. length xs - C \<le> m \<and> m < length xs \<longrightarrow>
        content (push_all xs \<lparr>capacity = C, content = [], index = 0\<rparr>) ! (m mod C)
          = Some (xs ! m))"
proof (induction xs rule: rev_induct)
  case Nil
  with assms show ?case by simp
next
  case (snoc x xs)
  let ?empty = "\<lparr>capacity = C, content = [], index = 0\<rparr> :: 'a Queue"
  show ?case
  proof (cases "C \<le> length xs")
    case False
    with snoc.prems have len: "length (xs @ [x]) = C" by simp
    then have eq: "push_all (xs @ [x]) ?empty
        = \<lparr>capacity = C, content = map Some (xs @ [x]), index = 0\<rparr>"
      using push_all_filling [of "xs @ [x]" C] by (simp del: map_append)
    have nth: "map Some (xs @ [x]) ! m = Some ((xs @ [x]) ! m)" if "m < C" for m
      using that len by (metis nth_map)
    show ?thesis
      unfolding eq using len nth by (simp del: map_append)
  next
    case True
    let ?q = "push_all xs ?empty"
    let ?n = "length xs"
    from snoc.IH [OF True] have cap: "capacity ?q = C" and lenc: "length (content ?q) = C"
      and idx: "index ?q = ?n mod C"
      and old: "\<And>m. ?n - C \<le> m \<Longrightarrow> m < ?n \<Longrightarrow> content ?q ! (m mod C) = Some (xs ! m)"
      by auto
    have idx_lt: "?n mod C < C" using assms by simp
    have cont: "content (push x ?q) = (content ?q)[?n mod C := Some x]"
      using cap lenc idx idx_lt by (simp add: push_def js_array_set_def Let_def)
    have capp: "capacity (push x ?q) = C"
      using cap lenc by (simp add: push_def Let_def)
    have idxp: "index (push x ?q) = Suc ?n mod C"
      using cap lenc idx by (simp add: push_def Let_def mod_Suc)
    have nthp: "content (push x ?q) ! (m mod C) = Some ((xs @ [x]) ! m)"
      if "Suc ?n - C \<le> m" "m < Suc ?n" for m
    proof (cases "m = ?n")
      case True
      then show ?thesis using cont lenc idx_lt by simp
    next
      case False
      with that have lt: "m < ?n" by simp
      moreover have "?n - m < C" using that True assms by linarith
      ultimately have "m mod C \<noteq> ?n mod C" by (rule mod_neq_of_close)
      moreover have "content ?q ! (m mod C) = Some (xs ! m)"
        using old [of m] that lt by simp
      ultimately show ?thesis using cont lt by (simp add: nth_append)
    qed
    show ?thesis
      using capp cont lenc idxp nthp by (simp add: push_all_snoc)
  qed
qed

text \<open>
  C7. A queue of capacity \<open>C \<ge> 1\<close> into which the \<open>C + k\<close> elements of \<open>xs\<close> were pushed
  in order: its oldest element is the \<open>(k+1)\<close>-th pushed, \<open>xs ! k\<close>; read from \<open>index\<close>
  round the ring, its slots are the last \<open>C\<close> elements pushed, oldest first; and one more
  push writes the slot of the current oldest element.
\<close>

theorem queue_retains_most_recent:
  assumes "1 \<le> C" and "length xs = C + k"
  shows "\<exists>q0. Queue_new (Fin (of_nat C)) = Inr q0
     \<and> oldest (push_all xs q0) = Some (xs ! k)
     \<and> rotate (index (push_all xs q0)) (content (push_all xs q0)) = map Some (drop k xs)
     \<and> content (push e (push_all xs q0))
         = (content (push_all xs q0))[index (push_all xs q0) := Some e]"
proof -
  let ?empty = "\<lparr>capacity = C, content = [], index = 0\<rparr> :: 'a Queue"
  let ?q = "push_all xs ?empty"
  have C: "0 < C" and le: "C \<le> length xs" using assms by simp_all
  from push_all_ring [OF C le]
  have cap: "capacity ?q = C" and lenc: "length (content ?q) = C"
    and idx: "index ?q = length xs mod C"
    and slot: "\<And>m. length xs - C \<le> m \<Longrightarrow> m < length xs \<Longrightarrow>
                 content ?q ! (m mod C) = Some (xs ! m)"
    by auto
  have idx_k: "index ?q = k mod C" using idx assms(2) by simp
  have idx_lt: "index ?q < C" using idx_k C by simp
  have "content ?q ! (k mod C) = Some (xs ! k)"
    using slot [of k] assms C by simp
  then have old: "oldest ?q = Some (xs ! k)"
    using idx_k idx_lt lenc by (simp add: oldest_def js_array_get_def)
  have rot: "rotate (index ?q) (content ?q) = map Some (drop k xs)"
  proof (rule nth_equalityI)
    show "length (rotate (index ?q) (content ?q)) = length (map Some (drop k xs))"
      using lenc assms(2) by simp
  next
    fix i assume "i < length (rotate (index ?q) (content ?q))"
    then have i: "i < C" using lenc by simp
    have "rotate (index ?q) (content ?q) ! i = content ?q ! ((index ?q + i) mod C)"
      using i lenc by (simp add: nth_rotate)
    also have "(index ?q + i) mod C = (k + i) mod C"
      using idx_k by (simp add: mod_add_left_eq)
    also have "content ?q ! ((k + i) mod C) = Some (xs ! (k + i))"
      using slot [of "k + i"] i assms(2) by simp
    also have "\<dots> = map Some (drop k xs) ! i"
      using i assms(2) by simp
    finally show "rotate (index ?q) (content ?q) ! i = map Some (drop k xs) ! i" .
  qed
  have over: "content (push e ?q) = (content ?q)[index ?q := Some e]"
    using cap lenc idx_lt by (simp add: push_def js_array_set_def Let_def)
  show ?thesis
    by (rule exI [of _ ?empty]) (simp add: Queue_new_nat [OF assms(1)] old rot over)
qed

text \<open>Capacity 3 and five pushes: the oldest element is the third pushed.\<close>

theorem queue_retains_most_recent_witness:
  "\<exists>q0. Queue_new (Fin 3) = Inr q0
     \<and> oldest (push_all [10, 20, 30, 40, 50 :: nat] q0) = Some 30
     \<and> rotate (index (push_all [10, 20, 30, 40, 50] q0)) (content (push_all [10, 20, 30, 40, 50] q0))
         = [Some 30, Some 40, Some 50]
     \<and> content (push 60 (push_all [10, 20, 30, 40, 50] q0))
         = (content (push_all [10, 20, 30, 40, 50] q0))[index (push_all [10, 20, 30, 40, 50] q0)
              := Some 60]"
  using queue_retains_most_recent [of 3 "[10, 20, 30, 40, 50 :: nat]" 2 60] by simp

section \<open>The tracker\<close>

text \<open>A call returns an estimate whenever the window has an oldest sample.\<close>

lemma updateProgressAndGetLatestEta_returns:
  assumes "oldest (slidingWindow tr) = Some r"
  shows "\<exists>est. updateProgressAndGetLatestEta now p t tr =
     Inr (est, tr\<lparr>slidingWindow := push \<lparr>s_progress = p, s_time = now\<rparr> (slidingWindow tr)\<rparr>)"
  using assms by (simp add: updateProgressAndGetLatestEta_def Let_def)

text \<open>The oldest element of a queue that was pushed into at least once.\<close>

lemma oldest_push_all:
  assumes "0 < C" and "xs \<noteq> []"
  shows "oldest (push_all xs \<lparr>capacity = C, content = [], index = 0\<rparr>)
     = Some (xs ! (length xs - C))"
proof (cases "length xs \<le> C")
  case True
  then have "push_all xs \<lparr>capacity = C, content = [], index = 0\<rparr>
      = \<lparr>capacity = C, content = map Some xs, index = 0\<rparr>"
    by (rule push_all_filling)
  then show ?thesis
    using True assms(2) by (simp add: oldest_def js_array_get_def)
next
  case False
  let ?q = "push_all xs \<lparr>capacity = C, content = [], index = 0\<rparr>"
  let ?n = "length xs"
  from False have le: "C \<le> ?n" by simp
  from push_all_ring [OF assms(1) le]
  have lenc: "length (content ?q) = C" and idx: "index ?q = ?n mod C"
    and slot: "\<And>m. ?n - C \<le> m \<Longrightarrow> m < ?n \<Longrightarrow> content ?q ! (m mod C) = Some (xs ! m)"
    by auto
  have "(?n - C) mod C = ?n mod C"
    using le by (simp add: le_mod_geq)
  moreover have "content ?q ! ((?n - C) mod C) = Some (xs ! (?n - C))"
    using slot [of "?n - C"] assms(1) le by simp
  ultimately have "content ?q ! (index ?q) = Some (xs ! (?n - C))"
    using idx by simp
  moreover have "index ?q < length (content ?q)"
    using idx lenc assms(1) by simp
  ultimately show ?thesis
    by (simp add: oldest_def js_array_get_def)
qed

lemma updates_window:
  assumes "0 < C"
  shows "xs \<noteq> [] \<Longrightarrow>
     slidingWindow tr = push_all xs \<lparr>capacity = C, content = [], index = 0\<rparr> \<Longrightarrow>
     \<exists>tr'. updates calls tr = Inr tr'
        \<and> slidingWindow tr'
            = push_all (xs @ map sample_of calls) \<lparr>capacity = C, content = [], index = 0\<rparr>"
proof (induction calls arbitrary: tr xs)
  case Nil
  then show ?case by simp
next
  case (Cons c calls)
  obtain now p t where c: "c = (now, p, t)" by (cases c)
  let ?s = "\<lparr>s_progress = p, s_time = now\<rparr>"
  let ?tr = "tr\<lparr>slidingWindow := push ?s (slidingWindow tr)\<rparr>"
  have "oldest (slidingWindow tr) = Some (xs ! (length xs - C))"
    using oldest_push_all [OF assms Cons.prems(1)] Cons.prems(2) by simp
  from updateProgressAndGetLatestEta_returns [OF this]
  obtain est where u: "updateProgressAndGetLatestEta now p t tr = Inr (est, ?tr)"
    by blast
  have "slidingWindow ?tr = push_all (xs @ [?s]) \<lparr>capacity = C, content = [], index = 0\<rparr>"
    using Cons.prems(2) by (simp add: push_all_snoc)
  from Cons.IH [OF _ this]
  obtain tr' where "updates calls ?tr = Inr tr'"
    and "slidingWindow tr'
       = push_all ((xs @ [?s]) @ map sample_of calls) \<lparr>capacity = C, content = [], index = 0\<rparr>"
    by auto
  then show ?case
    using u c by simp
qed

text \<open>
  X2. The window of a tracker is never empty: whatever calls were made since the tracker
  was built with a capacity \<open>C \<ge> 1\<close> at time \<open>now0\<close>, every call returned an estimate, and
  the oldest sample of the window is the one recorded \<open>C\<close> samples before the end of the
  history (the first sample, made by the constructor, while fewer than \<open>C\<close> were recorded).
\<close>

theorem tracker_window_never_empty:
  assumes "1 \<le> C"
  shows "\<exists>tr0 tr. EtaTracker_new now0 (Fin (of_nat C)) = Inr tr0
     \<and> updates calls tr0 = Inr tr
     \<and> oldest (slidingWindow tr)
         = Some ((\<lparr>s_progress = 0, s_time = now0\<rparr> # map sample_of calls)
                   ! (Suc (length calls) - C))"
proof -
  let ?e = "\<lparr>capacity = C, content = [], index = 0\<rparr> :: Sample Queue"
  let ?s0 = "\<lparr>s_progress = 0, s_time = now0\<rparr>"
  let ?tr0 = "\<lparr>slidingWindow = push ?s0 ?e\<rparr>"
  have C: "0 < C" using assms by simp
  have n: "EtaTracker_new now0 (Fin (of_nat C)) = Inr ?tr0"
    using assms by (simp add: EtaTracker_new_def Queue_new_nat)
  have "slidingWindow ?tr0 = push_all [?s0] ?e"
    by (simp add: push_all_def)
  from updates_window [OF C _ this, of calls]
  obtain tr where u: "updates calls ?tr0 = Inr tr"
    and w: "slidingWindow tr = push_all ([?s0] @ map sample_of calls) ?e"
    by auto
  have "oldest (slidingWindow tr)
      = Some (([?s0] @ map sample_of calls) ! (length ([?s0] @ map sample_of calls) - C))"
    unfolding w using C by (intro oldest_push_all) simp_all
  then have "oldest (slidingWindow tr)
      = Some ((?s0 # map sample_of calls) ! (Suc (length calls) - C))"
    by simp
  with n u show ?thesis by blast
qed

text \<open>
  Capacity 2, built at time 0, then asked at 1000 ms and at 2000 ms: the oldest sample of
  the window is the one of 1000 ms.
\<close>

theorem tracker_window_never_empty_witness:
  "\<exists>tr0 tr. EtaTracker_new 0 (Fin 2) = Inr tr0
     \<and> updates [(1000, 1, Some 10), (2000, 3, Some 10)] tr0 = Inr tr
     \<and> oldest (slidingWindow tr) = Some \<lparr>s_progress = 1, s_time = 1000\<rparr>"
  using tracker_window_never_empty [of 2 0 "[(1000, 1, Some 10), (2000, 3, Some 10)]"]
  by simp

text \<open>
  C8. When the current progress equals the total, the estimate has \<open>eta\<close> exactly 0,
  whatever the speed is; the speed is computed from \<open>r\<close>, the oldest sample of the window
  as it was before the call, and the window returned is the old one with the new sample
  pushed.
\<close>

theorem eta_zero_at_total_and_push_after:
  assumes "oldest (slidingWindow tr) = Some r"
  shows "updateProgressAndGetLatestEta now p (Some p) tr =
     Inr (\<lparr>eta = Fin 0,
            speed = js_div (js_mul (js_sub (Fin (of_int p)) (Fin (of_int (s_progress r))))
                              (Fin 1000))
                       (js_sub (Fin (of_int now)) (Fin (of_int (s_time r))))\<rparr>,
          tr\<lparr>slidingWindow := push \<lparr>s_progress = p, s_time = now\<rparr> (slidingWindow tr)\<rparr>)"
  using assms by (simp add: updateProgressAndGetLatestEta_def Let_def)

text \<open>
  A window of capacity 1, where the push replaces the only sample: the speed 5 comes from
  the sample of time 0, which the call then overwrites.
\<close>

theorem eta_zero_at_total_and_push_after_witness:
  "oldest (slidingWindow \<lparr>slidingWindow =
       \<lparr>capacity = 1, content = [Some \<lparr>s_progress = 0, s_time = 0\<rparr>], index = 0\<rparr>\<rparr>)
     = Some \<lparr>s_progress = 0, s_time = 0\<rparr>
   \<and> updateProgressAndGetLatestEta 1000 5 (Some 5)
       \<lparr>slidingWindow =
          \<lparr>capacity = 1, content = [Some \<lparr>s_progress = 0, s_time = 0\<rparr>], index = 0\<rparr>\<rparr>
     = Inr (\<lparr>eta = Fin 0, speed = Fin 5\<rparr>,
            \<lparr>slidingWindow =
               \<lparr>capacity = 1, content = [Some \<lparr>s_progress = 5, s_time = 1000\<rparr>],
                index = 0\<rparr>\<rparr>)"
proof -
  let ?tr = "\<lparr>slidingWindow =
       \<lparr>capacity = 1, content = [Some \<lparr>s_progress = 0, s_time = 0\<rparr>], index = 0\<rparr>\<rparr>"
  have o: "oldest (slidingWindow ?tr) = Some \<lparr>s_progress = 0, s_time = 0\<rparr>"
    by (simp add: oldest_def js_array_get_def)
  show ?thesis
    using o eta_zero_at_total_and_push_after [OF o, of 1000 5]
    by (simp add: js_sub_def push_def js_array_set_def)
qed

text \<open>
  C10. A call in the millisecond of the oldest sample (\<open>s_time r = now\<close>), with a progress
  that is not below that sample's: nothing guards the division by the elapsed time, and the
  speed returned is \<open>NaN\<close> when the progress has not advanced and plus infinity when it has.
  The ETA is computed from that speed: unless the progress equals the total (ETA 0) or the
  total is unknown (ETA infinite), it is \<open>NaN\<close> for the speed \<open>NaN\<close> and 0 for the infinite
  speed. The speed is displayed as \<open>99999 gbps\<close>.
\<close>

theorem same_millisecond_speed_not_finite:
  assumes "oldest (slidingWindow tr) = Some r" and "s_time r = now" and "s_progress r \<le> p"
  shows "\<exists>est tr'. updateProgressAndGetLatestEta now p t tr = Inr (est, tr')
     \<and> speed est = (if p = s_progress r then NaN else PosInf)
     \<and> eta est =
         (if t = Some p then Fin 0
          else case t of
            None \<Rightarrow> PosInf
          | Some T \<Rightarrow> js_div (Fin (of_int (T - p))) (speed est))
     \<and> eta est =
         (if t = Some p then Fin 0
          else case t of
            None \<Rightarrow> PosInf
          | Some T \<Rightarrow> if p = s_progress r then NaN else Fin 0)
     \<and> humanizeSpeed (speed est) = ''99999 gbps''"
  using assms
  by (auto simp add: updateProgressAndGetLatestEta_def Let_def js_sub_def signed_inf_def
        humanizeSpeed_def split: option.splits)

text \<open>
  A tracker made at time 0 and asked at time 0, after one unit of progress out of 10: the
  speed is infinite and the ETA is 0.
\<close>

theorem same_millisecond_speed_not_finite_witness:
  "EtaTracker_new 0 (Fin 120)
     = Inr \<lparr>slidingWindow =
             \<lparr>capacity = 120, content = [Some \<lparr>s_progress = 0, s_time = 0\<rparr>], index = 0\<rparr>\<rparr>
   \<and> (\<exists>est tr'.
        updateProgressAndGetLatestEta 0 1 (Some 10)
          \<lparr>slidingWindow =
             \<lparr>capacity = 120, content = [Some \<lparr>s_progress = 0, s_time = 0\<rparr>], index = 0\<rparr>\<rparr>
          = Inr (est, tr')
        \<and> speed est = PosInf \<and> eta est = Fin 0
        \<and> humanizeSpeed (speed est) = ''99999 gbps''
        \<and> humanizeDuration (eta est) = ''done'')"
proof -
  let ?tr = "\<lparr>slidingWindow =
       \<lparr>capacity = 120, content = [Some \<lparr>s_progress = 0, s_time = 0\<rparr>], index = 0\<rparr>\<rparr>"
  let ?r = "\<lparr>s_progress = 0, s_time = 0\<rparr>"
  have n: "EtaTracker_new 0 (Fin 120) = Inr ?tr"
    by (simp add: queue_eval)
  have o: "oldest (slidingWindow ?tr) = Some ?r"
    by (simp add: oldest_def js_array_get_def)
  from same_millisecond_speed_not_finite [OF o, of 0 1 "Some 10"]
  obtain est tr' where "updateProgressAndGetLatestEta 0 1 (Some 10) ?tr = Inr (est, tr')"
    and "speed est = PosInf" and "eta est = Fin 0"
    and "humanizeSpeed (speed est) = ''99999 gbps''"
    by auto
  then show ?thesis
    using n by (auto simp add: humanizeDuration_def)
qed

section \<open>The bar: start, stop and tick\<close>

text \<open>
  C2. The claim: on an output that is not a terminal, \<open>start()\<close> in the state Ready still
  moves the bar to Running, so that a later \<open>tick\<close> or \<open>stop\<close> does not fail. The code
  returns from \<open>start\<close> before it assigns the state: the bar is left as it was, in the state
  Ready, and the next \<open>tick(1)\<close> throws "progress bar is not running".
\<close>

theorem start_not_tty_stays_ready:
  "start now (b\<lparr>isTTY := False, state := READY\<rparr>)
     = (None, b\<lparr>isTTY := False, state := READY\<rparr>)
   \<and> state (snd (start now (b\<lparr>isTTY := False, state := READY\<rparr>))) = READY
   \<and> tick now' (Fin 1) (snd (start now (b\<lparr>isTTY := False, state := READY\<rparr>)))
       = (Some (Error ''progress bar is not running''), b\<lparr>isTTY := False, state := READY\<rparr>)"
  by (simp add: start_def tick_def)

text \<open>
  C9. A \<open>tick(v)\<close> that is rejected, because \<open>v\<close> is not an integer, or is below 1, or the
  bar is not Running, or the progress plus \<open>v\<close> exceeds the total, throws and leaves the
  whole bar as it was: the progress, every other field, and the events sent to the output.
\<close>

theorem rejected_tick_changes_nothing:
  assumes "\<not> js_isInteger v \<or> js_lt v (Fin 1) \<or> state b \<noteq> RUNNING
           \<or> js_lt (Fin (of_nat (total b))) (js_add (Fin (of_nat (progress b))) v)"
  shows "\<exists>e. tick now v b = (Some e, b)"
  using assms by (auto simp add: tick_def)

text \<open>
  The four rejections: half a unit and no unit on a running bar of total 10, one unit on a
  bar that was not started, and 11 units on the running bar.
\<close>

theorem rejected_tick_changes_nothing_witness:
  "(\<exists>e. tick 7 (Fin (1 / 2)) (snd (start 0 (new_bar tty 10 40)))
          = (Some e, snd (start 0 (new_bar tty 10 40))))
   \<and> (\<exists>e. tick 7 (Fin 0) (snd (start 0 (new_bar tty 10 40)))
          = (Some e, snd (start 0 (new_bar tty 10 40))))
   \<and> (\<exists>e. tick 7 (Fin 1) (new_bar tty 10 40) = (Some e, new_bar tty 10 40))
   \<and> (\<exists>e. tick 7 (Fin 11) (snd (start 0 (new_bar tty 10 40)))
          = (Some e, snd (start 0 (new_bar tty 10 40))))"
proof -
  let ?b = "snd (start 0 (new_bar tty 10 40))"
  have run: "state ?b = RUNNING" "progress ?b = 0" "total ?b = 10"
    by (simp_all add: start_new_bar_tty)
  have "\<exists>e. tick 7 (Fin (1 / 2)) ?b = (Some e, ?b)"
    by (rule rejected_tick_changes_nothing) simp
  moreover have "\<exists>e. tick 7 (Fin 0) ?b = (Some e, ?b)"
    by (rule rejected_tick_changes_nothing) simp
  moreover have "\<exists>e. tick 7 (Fin 1) (new_bar tty 10 40) = (Some e, new_bar tty 10 40)"
    by (rule rejected_tick_changes_nothing) (simp add: new_bar_def)
  moreover have "\<exists>e. tick 7 (Fin 11) ?b = (Some e, ?b)"
    by (rule rejected_tick_changes_nothing) (simp add: run)
  ultimately show ?thesis by simp
qed

section \<open>The bar: redrawing\<close>

lemma draw_fields:
  "progress (draw l b) = progress b"
  "total (draw l b) = total b"
  "state (draw l b) = state b"
  "etaUpdateInterval (draw l b) = etaUpdateInterval b"
  "latestEta (draw l b) = latestEta b"
  "etaCalculator (draw l b) = etaCalculator b"
  by (simp_all add: draw_def emit_def)

lemma floor_scaled_bounds:
  fixes x :: real
  assumes "0 \<le> x" "x \<le> 1"
  shows "0 \<le> \<lfloor>real n * x\<rfloor>" and "\<lfloor>real n * x\<rfloor> \<le> int n"
proof -
  have "0 \<le> real n * x" using assms by simp
  then show "0 \<le> \<lfloor>real n * x\<rfloor>" by simp
  have "real n * x \<le> real n" using assms by (simp add: mult_left_le)
  then have "\<lfloor>real n * x\<rfloor> \<le> \<lfloor>real n\<rfloor>" by (rule floor_mono)
  then show "\<lfloor>real n * x\<rfloor> \<le> int n" by simp
qed

lemma js_repeat_of_int:
  "0 \<le> k \<Longrightarrow> js_repeat [c] (Fin (of_int k)) = Inr (replicate (nat k) c)"
  by (simp add: concat_replicate_single)

text \<open>
  With a completion ratio between 0 and 1 the closure draws a bar of
  \<open>14 + remainingWidth\<close> cells between the brackets, and clears the interval when the
  progress equals the total.
\<close>

lemma renderBarSectionAndThenDraw_ratio:
  assumes "0 \<le> x" "x \<le> 1"
  shows "renderBarSectionAndThenDraw rw (Fin x) s1 s2 s3 s4 b =
     (None,
      (draw (''['' @ replicate (nat \<lfloor>real (14 + rw) * x\<rfloor>) CHR ''#''
               @ replicate (14 + rw - nat \<lfloor>real (14 + rw) * x\<rfloor>) CHR ''-'' @ '']''
               @ s1 @ s2 @ s3 @ s4) b)
        \<lparr>etaUpdateInterval :=
           if total b = progress b then clearInterval (etaUpdateInterval b)
           else etaUpdateInterval b\<rparr>)"
proof -
  define n where "n = 14 + rw"
  define k where "k = \<lfloor>real n * x\<rfloor>"
  have k0: "0 \<le> k" and kn: "k \<le> int n"
    using floor_scaled_bounds [OF assms, of n] by (simp_all add: k_def)
  have bw: "MIN_BAR_WIDTH + rw - 2 = n" by (simp add: MIN_BAR_WIDTH_def n_def)
  have fl: "js_floor (js_mul (Fin (real n)) (Fin x)) = Fin (of_int k)"
    by (simp add: k_def)
  have p: "js_repeat C_PROCESSED_BAR (Fin (of_int k)) = Inr (replicate (nat k) CHR ''#'')"
    using k0 unfolding C_PROCESSED_BAR_def by (rule js_repeat_of_int)
  have "js_sub (Fin (real n)) (Fin (of_int k)) = Fin (of_int (int n - k))"
    by (simp add: js_sub_def)
  moreover have "js_repeat C_UNPROCESSED_BAR (Fin (of_int (int n - k)))
      = Inr (replicate (nat (int n - k)) CHR ''-'')"
    using kn unfolding C_UNPROCESSED_BAR_def by (intro js_repeat_of_int) simp
  moreover have "nat (int n - k) = n - nat k"
    using k0 kn by linarith
  ultimately have u: "js_repeat C_UNPROCESSED_BAR (js_sub (Fin (real n)) (Fin (of_int k)))
      = Inr (replicate (n - nat k) CHR ''-'')"
    by simp
  have "renderBarSectionAndThenDraw rw (Fin x) s1 s2 s3 s4 b =
     (None,
      (draw (''['' @ replicate (nat k) CHR ''#'' @ replicate (n - nat k) CHR ''-'' @ '']''
               @ s1 @ s2 @ s3 @ s4) b)
        \<lparr>etaUpdateInterval :=
           if total b = progress b then clearInterval (etaUpdateInterval b)
           else etaUpdateInterval b\<rparr>)"
    unfolding renderBarSectionAndThenDraw_def bw Let_def fl p u
    by (simp add: draw_fields)
  then show ?thesis by (simp only: k_def n_def)
qed

lemma latestEtaOrUpdate_returns:
  assumes "latestEta b = Some l0
     \<or> (etaCalculator b = Some tr \<and> oldest (slidingWindow tr) = Some r)"
  shows "\<exists>l c. latestEtaOrUpdate now b = Inr (l, b\<lparr>etaCalculator := c, latestEta := Some l\<rparr>)"
proof (cases "latestEta b")
  case (Some l)
  then have "latestEtaOrUpdate now b
      = Inr (l, b\<lparr>etaCalculator := etaCalculator b, latestEta := Some l\<rparr>)"
    by (simp add: latestEtaOrUpdate_def)
  then show ?thesis by blast
next
  case None
  with assms have c: "etaCalculator b = Some tr" and o: "oldest (slidingWindow tr) = Some r"
    by simp_all
  from updateProgressAndGetLatestEta_returns [OF o]
  obtain est tr' where
    "updateProgressAndGetLatestEta now (int (progress b)) (Some (int (total b))) tr
       = Inr (est, tr')"
    by blast
  with None c have "latestEtaOrUpdate now b
      = Inr (est, b\<lparr>etaCalculator := Some tr', latestEta := Some est\<rparr>)"
    by (simp add: latestEtaOrUpdate_def)
  then show ?thesis by blast
qed

text \<open>
  A redraw at a width of at least 16, whoever asks for it, returns, leaves the progress,
  the total and the state alone, and clears the interval exactly when the progress equals
  the total.
\<close>

lemma refresh_timer:
  assumes w: "MIN_BAR_WIDTH \<le> outputWidth b"
    and p: "progress b \<le> total b" and t: "0 < total b"
    and est: "latestEta b = Some l0
       \<or> (etaCalculator b = Some tr \<and> oldest (slidingWindow tr) = Some r)"
  shows "\<exists>b'. refresh now b = (None, b') \<and> progress b' = progress b \<and> total b' = total b
      \<and> state b' = state b
      \<and> etaUpdateInterval b' =
          (if total b = progress b then clearInterval (etaUpdateInterval b)
           else etaUpdateInterval b)"
proof -
  define x where "x = real (progress b) / real (total b)"
  have x0: "0 \<le> x" and x1: "x \<le> 1"
    using p t by (simp_all add: x_def)
  have ratio: "js_div (Fin (real (progress b))) (Fin (real (total b))) = Fin x"
    using t by (simp add: x_def)
  from latestEtaOrUpdate_returns [OF est]
  obtain l c
    where E: "latestEtaOrUpdate now b = Inr (l, b\<lparr>etaCalculator := c, latestEta := Some l\<rparr>)"
    by blast
  have nw: "\<not> outputWidth b < MIN_BAR_WIDTH" using w by simp
  define v where "v = (if total b = progress b then clearInterval (etaUpdateInterval b)
             else etaUpdateInterval b)"
  have R: "\<exists>b'. renderBarSectionAndThenDraw rw (Fin x) s1 s2 s3 s4 b2 = (None, b')
        \<and> progress b' = progress b \<and> total b' = total b \<and> state b' = state b
        \<and> etaUpdateInterval b' = v"
    if "progress b2 = progress b" "total b2 = total b" "state b2 = state b"
      "etaUpdateInterval b2 = etaUpdateInterval b"
    for rw s1 s2 s3 s4 b2
    using that by (simp add: renderBarSectionAndThenDraw_ratio [OF x0 x1] draw_fields v_def)
  have "\<exists>b'. refresh now b = (None, b') \<and> progress b' = progress b \<and> total b' = total b
      \<and> state b' = state b \<and> etaUpdateInterval b' = v"
    unfolding refresh_def ratio Let_def E
    by (simp only: nw if_False sum.case prod.case split: if_split) (intro conjI impI R; simp)
  then show ?thesis by (simp only: v_def)
qed












text \<open>
  C3, as the code has it. The claim: only a periodic timer firing that observes the
  progress equal to the total cancels the timer, and the \<open>tick()\<close> that reaches the total
  does not. In the code the interval is cleared inside the redraw, which \<open>tick\<close> calls: on
  a running bar on a terminal of width at least 16, the \<open>tick(k)\<close> that brings the progress
  to the total returns with the interval cleared.
\<close>

theorem tick_reaching_total_cancels_timer:
  assumes "state b = RUNNING" and "isTTY b" and "MIN_BAR_WIDTH \<le> outputWidth b"
    and "1 \<le> k" and "progress b + k = total b"
    and "etaCalculator b = Some tr" and "oldest (slidingWindow tr) = Some r"
  shows "\<exists>b'. tick now (Fin (of_nat k)) b = (None, b')
     \<and> progress b' = total b' \<and> total b' = total b \<and> state b' = RUNNING
     \<and> etaUpdateInterval b' = clearInterval (etaUpdateInterval b)"
proof -
  let ?b1 = "b\<lparr>progress := progress b + js_to_nat (Fin (of_nat k))\<rparr>"
  have k: "js_to_nat (Fin (of_nat k)) = k" by simp
  have t: "tick now (Fin (of_nat k)) b = refresh now ?b1"
    using assms(1,2,4,5) by (simp add: tick_def)
  have "\<exists>b'. refresh now ?b1 = (None, b') \<and> progress b' = progress ?b1
      \<and> total b' = total ?b1 \<and> state b' = state ?b1
      \<and> etaUpdateInterval b' =
          (if total ?b1 = progress ?b1 then clearInterval (etaUpdateInterval ?b1)
           else etaUpdateInterval ?b1)"
  proof (rule refresh_timer)
    show "MIN_BAR_WIDTH \<le> outputWidth ?b1"
      using assms(3) by (simp add: outputWidth_def split: option.splits)
    show "progress ?b1 \<le> total ?b1" using assms(5) by simp
    show "0 < total ?b1" using assms(4,5) by simp
    show "latestEta ?b1 = Some \<lparr>eta = NaN, speed = NaN\<rparr>
       \<or> (etaCalculator ?b1 = Some tr \<and> oldest (slidingWindow tr) = Some r)"
      using assms(6,7) by simp
  qed
  then show ?thesis
    unfolding t using assms(1,5) by (auto simp add: k)
qed

text \<open>
  A bar of total 10 and width 40, started at time 0: \<open>tick(10)\<close> at time 5 cancels the
  timer that \<open>start\<close> armed.
\<close>

theorem tick_reaching_total_cancels_timer_witness:
  "etaUpdateInterval (snd (start 0 (new_bar tty 10 40))) = Some Active
   \<and> (\<exists>b'. tick 5 (Fin 10) (snd (start 0 (new_bar tty 10 40))) = (None, b')
        \<and> progress b' = total b' \<and> total b' = 10 \<and> state b' = RUNNING
        \<and> etaUpdateInterval b' = Some Cancelled)"
proof -
  let ?b = "snd (start 0 (new_bar tty 10 40))"
  let ?tr = "\<lparr>slidingWindow =
       \<lparr>capacity = 120, content = [Some \<lparr>s_progress = 0, s_time = 0\<rparr>], index = 0\<rparr>\<rparr>"
  have f: "state ?b = RUNNING" "isTTY ?b" "MIN_BAR_WIDTH \<le> outputWidth ?b"
    "progress ?b + 10 = total ?b" "etaCalculator ?b = Some ?tr"
    "etaUpdateInterval ?b = Some Active" "total ?b = 10"
    by (simp_all add: start_new_bar_tty outputWidth_def MIN_BAR_WIDTH_def)
  have o: "oldest (slidingWindow ?tr) = Some \<lparr>s_progress = 0, s_time = 0\<rparr>"
    by (simp add: oldest_def js_array_get_def)
  have "(1::nat) \<le> 10" by simp
  from tick_reaching_total_cancels_timer [OF f(1) f(2) f(3) this f(4) f(5) o, of 5]
  show ?thesis
    using f(6,7) by (simp add: clearInterval_def)
qed

text \<open>
  The same run, computed: the claim of C3 fails on it. The timer is active after \<open>start\<close>,
  and cancelled when \<open>tick(10)\<close> returns, with no timer firing in between.
\<close>

theorem tick_cancels_timer_counterexample:
  "etaUpdateInterval (snd (start 0 (new_bar tty 10 40))) = Some Active
   \<and> fst (tick 5 (Fin 10) (snd (start 0 (new_bar tty 10 40)))) = None
   \<and> progress (snd (tick 5 (Fin 10) (snd (start 0 (new_bar tty 10 40))))) = 10
   \<and> etaUpdateInterval (snd (tick 5 (Fin 10) (snd (start 0 (new_bar tty 10 40)))))
       = Some Cancelled"
  by (simp add: bar_eval queue_eval fixture_eval humanize_eval str_eval)

text \<open>
  X5. A firing of the periodic timer on a bar of width at least 16: the callback makes a
  new estimate, redraws, and leaves the timer active unless the progress equals the total,
  in which case the timer is cancelled. At a width below 16 a redraw never cancels the
  timer, even when the progress equals the total.
\<close>

theorem timer_firing_cancels_when_complete:
  assumes "etaUpdateInterval b = Some Active" and "MIN_BAR_WIDTH \<le> outputWidth b"
    and "progress b \<le> total b" and "0 < total b"
    and "etaCalculator b = Some tr" and "oldest (slidingWindow tr) = Some r"
  shows "(\<exists>b'. timerFires now b = (None, b')
        \<and> progress b' = progress b \<and> state b' = state b
        \<and> etaUpdateInterval b' = (if total b = progress b then Some Cancelled else Some Active))
     \<and> etaUpdateInterval (snd (refresh now (b\<lparr>fixedOutputWidth := Some 15\<rparr>))) = Some Active"
proof -
  from updateProgressAndGetLatestEta_returns [OF assms(6)]
  obtain est tr' where
    u: "updateProgressAndGetLatestEta now (int (progress b)) (Some (int (total b))) tr
       = Inr (est, tr')"
    by blast
  let ?b1 = "b\<lparr>etaCalculator := Some tr', latestEta := Some est\<rparr>"
  have t: "timerFires now b = refresh now ?b1"
    using assms(1,5) u by (simp add: timerFires_def intervalCallback_def)
  have "\<exists>b'. refresh now ?b1 = (None, b') \<and> progress b' = progress ?b1
      \<and> total b' = total ?b1 \<and> state b' = state ?b1
      \<and> etaUpdateInterval b' =
          (if total ?b1 = progress ?b1 then clearInterval (etaUpdateInterval ?b1)
           else etaUpdateInterval ?b1)"
  proof (rule refresh_timer)
    show "MIN_BAR_WIDTH \<le> outputWidth ?b1"
      using assms(2) by (simp add: outputWidth_def split: option.splits)
    show "progress ?b1 \<le> total ?b1" using assms(3) by simp
    show "0 < total ?b1" using assms(4) by simp
    show "latestEta ?b1 = Some est
       \<or> (etaCalculator ?b1 = Some tr' \<and> oldest (slidingWindow tr') = Some r)"
      by simp
  qed
  then have fire: "\<exists>b'. timerFires now b = (None, b')
        \<and> progress b' = progress b \<and> state b' = state b
        \<and> etaUpdateInterval b' = (if total b = progress b then Some Cancelled else Some Active)"
    unfolding t using assms(1) by (auto simp add: clearInterval_def)
  have narrow: "etaUpdateInterval (snd (refresh now (b\<lparr>fixedOutputWidth := Some 15\<rparr>)))
      = Some Active"
    using assms(1) by (simp add: refresh_def outputWidth_def MIN_BAR_WIDTH_def draw_fields)
  from fire narrow show ?thesis by blast
qed

text \<open>
  The bar of total 10 and width 40 started at time 0, when the timer fires at 1000 ms: with
  no progress the timer stays active.
\<close>

theorem timer_firing_cancels_when_complete_witness:
  "(\<exists>b'. timerFires 1000 (snd (start 0 (new_bar tty 10 40))) = (None, b')
        \<and> progress b' = 0 \<and> state b' = RUNNING \<and> etaUpdateInterval b' = Some Active)
   \<and> etaUpdateInterval
        (snd (refresh 1000 ((snd (start 0 (new_bar tty 10 40)))\<lparr>fixedOutputWidth := Some 15\<rparr>)))
       = Some Active"
proof -
  let ?b = "snd (start 0 (new_bar tty 10 40))"
  let ?tr = "\<lparr>slidingWindow =
       \<lparr>capacity = 120, content = [Some \<lparr>s_progress = 0, s_time = 0\<rparr>], index = 0\<rparr>\<rparr>"
  have f: "etaUpdateInterval ?b = Some Active" "MIN_BAR_WIDTH \<le> outputWidth ?b"
    "progress ?b \<le> total ?b" "0 < total ?b" "etaCalculator ?b = Some ?tr"
    "progress ?b = 0" "total ?b = 10" "state ?b = RUNNING"
    by (simp_all add: start_new_bar_tty outputWidth_def MIN_BAR_WIDTH_def)
  have o: "oldest (slidingWindow ?tr) = Some \<lparr>s_progress = 0, s_time = 0\<rparr>"
    by (simp add: oldest_def js_array_get_def)
  from timer_firing_cancels_when_complete [OF f(1) f(2) f(3) f(4) f(5) o, of 1000]
  show ?thesis
    using f(6,7,8) by simp
qed

text \<open>
  C1. The claim: the line \<open>refresh\<close> draws never has more characters than the width. A bar
  of total 306 and width 56 on a terminal, started at time 0 and ticked once two seconds
  later: the estimate is 0.5 units per second and 610 seconds, \<open>humanizeDuration\<close> gives
  the seven characters \<open>10m 10s\<close> (see C4), the section \<open>| eta ...\<close> takes 14 columns where
  13 were counted, and the line drawn has 57 characters. A bar of total 400000 and width
  52, started at time 0 and ticked by 399999 units 400 seconds later: the speed is 999.9975,
  \<open>humanizeSpeed\<close> gives the eleven characters \<open>1000.00 bps\<close> (see C5), and the line drawn
  has 53 characters.
\<close>

theorem refresh_line_exceeds_width:
  "fst (tick 2000 (Fin 1) (snd (start 0 (new_bar tty 306 56)))) = None
   \<and> outputWidth (snd (tick 2000 (Fin 1) (snd (start 0 (new_bar tty 306 56))))) = 56
   \<and> latestEta (snd (tick 2000 (Fin 1) (snd (start 0 (new_bar tty 306 56)))))
       = Some \<lparr>eta = Fin 610, speed = Fin (1 / 2)\<rparr>
   \<and> events (snd (tick 2000 (Fin 1) (snd (start 0 (new_bar tty 306 56)))))
       = events (snd (start 0 (new_bar tty 306 56)))
         @ [CursorTo 0 None,
            Write ''[--------------]   1/306  (0%) | eta 10m 10s |   0.50 bps'']
   \<and> length ''[--------------]   1/306  (0%) | eta 10m 10s |   0.50 bps'' = 57
   \<and> fst (tick 400000 (Fin 399999) (snd (start 0 (new_bar tty 400000 52)))) = None
   \<and> outputWidth (snd (tick 400000 (Fin 399999) (snd (start 0 (new_bar tty 400000 52))))) = 52
   \<and> events (snd (tick 400000 (Fin 399999) (snd (start 0 (new_bar tty 400000 52)))))
       = events (snd (start 0 (new_bar tty 400000 52)))
         @ [CursorTo 0 None,
            Write ''[#############-] 399999/400000 |     0s | 1000.00 bps'']
   \<and> length ''[#############-] 399999/400000 |     0s | 1000.00 bps'' = 53"
  by (simp add: bar_eval queue_eval fixture_eval humanize_eval str_eval)

section \<open>The width of the line\<close>

lemma length_percentage:
  assumes "0 \<le> x" "x \<le> 1"
  shows "length (js_String (js_floor (js_mul (Fin x) (Fin 100)))) \<le> 3"
proof -
  define j where "j = \<lfloor>x * 100\<rfloor>"
  have j0: "0 \<le> j" using assms by (simp add: j_def)
  have "x * 100 \<le> 100" using assms by simp
  then have "j \<le> \<lfloor>100 :: real\<rfloor>" unfolding j_def by (rule floor_mono)
  then have j1: "nat j \<le> 100" by simp
  have "length (string_of_nat (nat j)) \<le> length (string_of_nat 100)"
    using j1 by (rule length_string_of_nat_mono)
  also have "length (string_of_nat 100) = 3"
    by (simp add: string_of_nat.simps)
  finally have "length (string_of_nat (nat j)) \<le> 3" .
  moreover have "js_floor (js_mul (Fin x) (Fin 100)) = Fin (of_int j)"
    by (simp add: j_def)
  ultimately show ?thesis
    by (simp only: js_String_of_nat [OF j0])
qed

text \<open>
  At a width of at least 16, with an estimate whose duration is printed in at most 6
  characters and whose speed in at most 10, every path through \<open>refresh\<close> draws a line of
  exactly \<open>outputWidth\<close> characters.
\<close>

lemma refresh_line_fits:
  assumes w: "MIN_BAR_WIDTH \<le> outputWidth b"
    and p: "progress b \<le> total b" and t: "0 < total b"
    and l: "latestEta b = Some l"
    and d: "length (humanizeDuration (eta l)) \<le> 6"
    and s: "length (humanizeSpeed (speed l)) \<le> 10"
  shows "\<exists>line. refresh now b =
        (None, (draw line b)\<lparr>etaUpdateInterval :=
           if total b = progress b then clearInterval (etaUpdateInterval b)
           else etaUpdateInterval b\<rparr>)
      \<and> length line = outputWidth b"
proof -
  define x where "x = real (progress b) / real (total b)"
  have x0: "0 \<le> x" and x1: "x \<le> 1"
    using p t by (simp_all add: x_def)
  have ratio: "js_div (Fin (real (progress b))) (Fin (real (total b))) = Fin x"
    using t by (simp add: x_def)
  have E: "latestEtaOrUpdate now b = Inr (l, b)"
    using l by (simp add: latestEtaOrUpdate_def)
  have nw: "\<not> outputWidth b < MIN_BAR_WIDTH" using w by simp
  define v where "v = (if total b = progress b then clearInterval (etaUpdateInterval b)
             else etaUpdateInterval b)"
  define W where "W = outputWidth b"
  define D where "D = length (string_of_nat (total b))"
  have W16: "16 \<le> W" using w by (simp add: W_def MIN_BAR_WIDTH_def)
  have pd: "length (string_of_nat (progress b)) \<le> D"
    unfolding D_def using p by (rule length_string_of_nat_mono)
  have pct: "length (js_String (js_floor (js_mul (Fin x) (Fin 100)))) \<le> 3"
    using x0 x1 by (rule length_percentage)
  have R: "\<exists>line. renderBarSectionAndThenDraw rw (Fin x) s1 s2 s3 s4 b
         = (None, (draw line b)\<lparr>etaUpdateInterval := v\<rparr>) \<and> length line = W"
    if "16 + rw + length s1 + length s2 + length s3 + length s4 = W"
    for rw s1 s2 s3 s4
  proof (intro exI conjI)
    define n where "n = 14 + rw"
    define k where "k = nat \<lfloor>real n * x\<rfloor>"
    have kn: "k \<le> n"
      using floor_scaled_bounds [OF x0 x1, of n] by (simp add: k_def)
    show "renderBarSectionAndThenDraw rw (Fin x) s1 s2 s3 s4 b
       = (None, (draw (''['' @ replicate (nat \<lfloor>real (14 + rw) * x\<rfloor>) CHR ''#''
                        @ replicate (14 + rw - nat \<lfloor>real (14 + rw) * x\<rfloor>) CHR ''-''
                        @ '']'' @ s1 @ s2 @ s3 @ s4) b)
                  \<lparr>etaUpdateInterval := v\<rparr>)"
      by (simp only: renderBarSectionAndThenDraw_ratio [OF x0 x1] v_def)
    have "length (''['' @ replicate k CHR ''#'' @ replicate (n - k) CHR ''-''
                    @ '']'' @ s1 @ s2 @ s3 @ s4) = W"
      using that kn by (simp add: n_def)
    then show "length (''['' @ replicate (nat \<lfloor>real (14 + rw) * x\<rfloor>) CHR ''#''
                        @ replicate (14 + rw - nat \<lfloor>real (14 + rw) * x\<rfloor>) CHR ''-''
                        @ '']'' @ s1 @ s2 @ s3 @ s4) = W"
      by (simp only: k_def n_def)
  qed
  have "\<exists>line. refresh now b = (None, (draw line b)\<lparr>etaUpdateInterval := v\<rparr>)
      \<and> length line = W"
    unfolding refresh_def ratio Let_def E
    apply (simp only: nw if_False sum.case prod.case split: if_split)
    apply (intro conjI impI R)
    using d s pd pct W16
    by (simp_all add: length_padStart max_def W_def [symmetric] D_def [symmetric]
          MIN_BAR_WIDTH_def C_COLUMN_SEPARATOR_def
          del: js_String.simps js_floor.simps js_mul.simps)
  then show ?thesis by (simp only: v_def W_def)
qed

text \<open>
  X1. What remains of C1: whatever the width, when the progress is at most the total, the
  total is below \<open>10\<^sup>2\<^sup>1\<close> (from there on \<open>toString\<close> prints an exponent, which the decimal
  digits of the model are not) and the estimate at hand is printed within the budgets the
  layout counts on (a duration of at most 6 characters, a speed of at most 10), \<open>refresh\<close>
  returns and the line it draws has exactly \<open>outputWidth\<close> characters.
\<close>

theorem refresh_line_fills_width:
  assumes "progress b \<le> total b" and "0 < total b" and "latestEta b = Some l"
    and "length (humanizeDuration (eta l)) \<le> 6"
    and "length (humanizeSpeed (speed l)) \<le> 10"
    and "total b < 10 ^ 21"
  shows "\<exists>line. fst (refresh now b) = None
     \<and> events (snd (refresh now b)) = events (draw line b)
     \<and> length line = outputWidth b"
proof (cases "outputWidth b < MIN_BAR_WIDTH")
  case True
  then have "refresh now b = (None, draw (concat (replicate (outputWidth b) ''#'')) b)"
    by (simp add: refresh_def)
  moreover have "length (concat (replicate (outputWidth b) ''#'')) = outputWidth b"
    by (simp add: concat_replicate_single)
  ultimately show ?thesis by (metis fst_conv snd_conv)
next
  case False
  then have "MIN_BAR_WIDTH \<le> outputWidth b" by simp
  from refresh_line_fits [OF this assms(1-5), of now]
  obtain line where "refresh now b =
        (None, (draw line b)\<lparr>etaUpdateInterval :=
           if total b = progress b then clearInterval (etaUpdateInterval b)
           else etaUpdateInterval b\<rparr>)"
    and "length line = outputWidth b"
    by blast
  then have "fst (refresh now b) = None \<and> events (snd (refresh now b)) = events (draw line b)
      \<and> length line = outputWidth b"
    by simp
  then show ?thesis by blast
qed

text \<open>
  The bar of the comment in \<open>refresh\<close>: 333 of 1000, 30 seconds left at 20 units per
  second, drawn at width 60.
\<close>

theorem refresh_line_fills_width_witness:
  "\<exists>line. fst (refresh 0 ((new_bar tty 1000 60)
                \<lparr>progress := 333, state := RUNNING,
                 latestEta := Some \<lparr>eta = Fin 30, speed = Fin 20\<rparr>\<rparr>)) = None
     \<and> events (snd (refresh 0 ((new_bar tty 1000 60)
                \<lparr>progress := 333, state := RUNNING,
                 latestEta := Some \<lparr>eta = Fin 30, speed = Fin 20\<rparr>\<rparr>)))
         = events (draw line ((new_bar tty 1000 60)
                \<lparr>progress := 333, state := RUNNING,
                 latestEta := Some \<lparr>eta = Fin 30, speed = Fin 20\<rparr>\<rparr>))
     \<and> length line = 60"
proof -
  let ?b = "(new_bar tty 1000 60)
                \<lparr>progress := 333, state := RUNNING,
                 latestEta := Some \<lparr>eta = Fin 30, speed = Fin 20\<rparr>\<rparr>"
  have f: "progress ?b \<le> total ?b" "0 < total ?b"
    "latestEta ?b = Some \<lparr>eta = Fin 30, speed = Fin 20\<rparr>"
    by (simp_all add: new_bar_def)
  have d: "length (humanizeDuration (eta \<lparr>eta = Fin 30, speed = Fin 20\<rparr>)) \<le> 6"
    by (simp add: humanize_eval str_eval)
  have s: "length (humanizeSpeed (speed \<lparr>eta = Fin 30, speed = Fin 20\<rparr>)) \<le> 10"
    by (simp add: humanize_eval str_eval)
  have w: "outputWidth ?b = 60"
    by (simp add: outputWidth_def new_bar_def)
  have t: "total ?b < 10 ^ 21"
    by (simp add: new_bar_def)
  from refresh_line_fills_width [OF f d s t, of 0]
  show ?thesis by (simp only: w)
qed

end
